theory Spec2Isabelle
  imports Complex_Main "HOL-Library.Word"
begin

section \<open>Data model\<close>

text \<open>
  The room map is a \<^verbatim>\<open>cv::Mat\<close> of \<^verbatim>\<open>uchar\<close>: a list of rows, each a list
  of 8-bit pixels. The code compares pixels with 255 (free, white) and 0 (obstacle,
  black); any other value is neither.
\<close>

type_synonym uchar = "8 word"
type_synonym Mat = "uchar list list"

definition rows :: "Mat \<Rightarrow> nat" where
  "rows m = length m"

definition cols :: "Mat \<Rightarrow> nat" where
  "cols m = (case m of [] \<Rightarrow> 0 | r # _ \<Rightarrow> length r)"

definition rectangular :: "Mat \<Rightarrow> bool" where
  "rectangular m = list_all (\<lambda>r. length r = cols m) m"

text \<open>
  \<^verbatim>\<open>room_map.at<uchar>(y, x)\<close> with computed indices. An access outside
  the map is no pixel of the map. \<open>at_uchar\<close> stops there and reports the row and the
  column that were asked for, as a build with OpenCV's debug assertions does.
  \<open>at_unchecked\<close> is a build without them: the access yields whatever byte
  \<open>beyond\<close> lies at that place.
\<close>

datatype error = OutOfBounds int int | IndexOutOfRange int

type_synonym reader = "Mat \<Rightarrow> int \<Rightarrow> int \<Rightarrow> error + uchar"

definition inside :: "Mat \<Rightarrow> int \<Rightarrow> int \<Rightarrow> bool" where
  "inside m y x = (0 \<le> y \<and> y < int (rows m) \<and> 0 \<le> x \<and> x < int (cols m))"

definition at_uchar :: reader where
  "at_uchar m y x =
     (if inside m y x then Inr (m ! nat y ! nat x) else Inl (OutOfBounds y x))"

definition at_unchecked :: "(int \<Rightarrow> int \<Rightarrow> uchar) \<Rightarrow> reader" where
  "at_unchecked beyond m y x =
     (if inside m y x then Inr (m ! nat y ! nat x) else Inr (beyond y x))"

text \<open>\<^verbatim>\<open>cell_map.at<uchar>(y, x) = v\<close>\<close>

definition set_uchar :: "Mat \<Rightarrow> nat \<Rightarrow> nat \<Rightarrow> uchar \<Rightarrow> Mat" where
  "set_uchar m y x v = m[y := (m ! y)[x := v]]"

section \<open>I. The sweep: initial slice\<close>

text \<open>
  Lines 47 to 73. The state is \<open>(y_start, n_start, found, obstacle)\<close>. The loop
  counters stay below \<^verbatim>\<open>room_map.rows\<close> and \<^verbatim>\<open>room_map.cols\<close>, so these
  reads are pixels of the map.
\<close>

type_synonym start_state = "nat \<times> int \<times> bool \<times> bool"

fun start_pixel :: "uchar \<Rightarrow> nat \<Rightarrow> start_state \<Rightarrow> start_state" where
  "start_pixel p y (y_start, n_start, found, obstacle) =
     (if p = 255 \<and> \<not> found then (y, n_start, True, obstacle)
      else if found \<and> \<not> obstacle \<and> p = 0 then (y_start, n_start + 1, found, True)
      else if found \<and> obstacle \<and> p = 255 then (y_start, n_start, found, False)
      else (y_start, n_start, found, obstacle))"

definition start_row :: "Mat \<Rightarrow> nat \<Rightarrow> start_state \<Rightarrow> start_state" where
  "start_row m y s = foldl (\<lambda>s x. start_pixel (m ! y ! x) y s) s [0..<cols m]"

fun start_rows :: "Mat \<Rightarrow> nat list \<Rightarrow> start_state \<Rightarrow> start_state" where
  "start_rows m [] s = s"
| "start_rows m (y # ys) s =
     (let s' = start_row m y s
      in if fst (snd (snd s')) then s' else start_rows m ys s')"

definition find_start :: "Mat \<Rightarrow> start_state" where
  "find_start m = start_rows m [0..<rows m] (0, 0, False, False)"

definition y_start :: "Mat \<Rightarrow> nat" where
  "y_start m = fst (find_start m)"

definition n_start :: "Mat \<Rightarrow> int" where
  "n_start m = fst (snd (find_start m))"

section \<open>I. The sweep: events and separators\<close>

text \<open>
  Lines 79 to 100: the number of segments of slice \<open>y\<close>. The state is
  \<open>(number_of_segments, obstacle_hit, hit_white_pixel)\<close>.
\<close>

type_synonym slice_state = "int \<times> bool \<times> bool"

fun slice_pixel :: "uchar \<Rightarrow> slice_state \<Rightarrow> slice_state" where
  "slice_pixel p (number_of_segments, obstacle_hit, hit_white_pixel) =
     (if p = 255 \<and> \<not> hit_white_pixel then (number_of_segments, obstacle_hit, True)
      else if hit_white_pixel then
        (if \<not> obstacle_hit \<and> p = 0 then (number_of_segments + 1, True, hit_white_pixel)
         else if obstacle_hit \<and> p = 255 then (number_of_segments, False, hit_white_pixel)
         else (number_of_segments, obstacle_hit, hit_white_pixel))
      else (number_of_segments, obstacle_hit, hit_white_pixel))"

definition number_of_segments :: "Mat \<Rightarrow> nat \<Rightarrow> int" where
  "number_of_segments m y =
     fst (foldl (\<lambda>s x. slice_pixel (m ! y ! x) s) (0, False, False) [0..<cols m])"

text \<open>
  Lines 117 to 120 and 159 to 162: the stencil over (or under) a black pixel at column
  \<open>x\<close>. All three columns \<open>x-1\<close>, \<open>x\<close>, \<open>x+1\<close> of row \<open>yy\<close> are read,
  whatever the earlier ones hold. \<open>read\<close> is \<open>at_uchar\<close> or
  \<open>at_unchecked beyond\<close>.
\<close>

definition critical_point :: "reader \<Rightarrow> Mat \<Rightarrow> int \<Rightarrow> int \<Rightarrow> error + bool" where
  "critical_point read m yy x =
     (case read m yy (x - 1) of Inl e \<Rightarrow> Inl e | Inr a \<Rightarrow>
      case read m yy x of Inl e \<Rightarrow> Inl e | Inr b \<Rightarrow>
      case read m yy (x + 1) of Inl e \<Rightarrow> Inl e | Inr c \<Rightarrow>
        Inr (\<not> (a = 0 \<or> b = 0 \<or> c = 0)))"

text \<open>
  Lines 128 to 143 and 170 to 185: the separator is drawn on row \<open>y\<close> of the cell map
  along a sequence of columns, until a black pixel stops it. To the left the columns are
  \<open>x-1, x-2, \<dots>, 1\<close> (the loop runs while \<^verbatim>\<open>x+dx > 0\<close>), to the right
  \<open>x+1, \<dots>, cols-1\<close>.
\<close>

fun mark_separation :: "nat \<Rightarrow> nat list \<Rightarrow> Mat \<Rightarrow> Mat" where
  "mark_separation y [] cell_map = cell_map"
| "mark_separation y (c # cs) cell_map =
     (if cell_map ! y ! c = 255 then mark_separation y cs (set_uchar cell_map y c 0)
      else if cell_map ! y ! c = 0 then cell_map
      else mark_separation y cs cell_map)"

definition mark_left_right :: "Mat \<Rightarrow> nat \<Rightarrow> nat \<Rightarrow> Mat \<Rightarrow> Mat" where
  "mark_left_right room_map y x cell_map =
     mark_separation y [x + 1..<cols room_map] (mark_separation y (rev [1..<x]) cell_map)"

text \<open>
  Lines 109 to 146 (IN event) and 151 to 188 (OUT event) are the same loop: slice
  \<open>ys\<close> of the room map is scanned, the stencil looks at slice \<open>yt\<close>, and the
  separators are drawn on slice \<open>ys\<close> of the cell map. For an IN event at \<open>y\<close>,
  \<open>ys = y\<close> and \<open>yt = y - 1\<close>; for an OUT event, \<open>ys = y - 1\<close> and \<open>yt = y\<close>.
\<close>

fun event_slice ::
  "reader \<Rightarrow> Mat \<Rightarrow> nat \<Rightarrow> nat \<Rightarrow> nat list \<Rightarrow> bool \<Rightarrow> Mat \<Rightarrow> error + Mat" where
  "event_slice read room_map ys yt [] hit_white_pixel cell_map = Inr cell_map"
| "event_slice read room_map ys yt (x # xs) hit_white_pixel cell_map =
     (if room_map ! ys ! x = 255 \<and> \<not> hit_white_pixel
      then event_slice read room_map ys yt xs True cell_map
      else if hit_white_pixel \<and> room_map ! ys ! x = 0 then
        (case critical_point read room_map (int yt) (int x) of
           Inl e \<Rightarrow> Inl e
         | Inr cp \<Rightarrow>
             event_slice read room_map ys yt xs hit_white_pixel
               (if cp then mark_left_right room_map ys x cell_map else cell_map))
      else event_slice read room_map ys yt xs hit_white_pixel cell_map)"

text \<open>Lines 76 to 193: the slices \<open>y_start+1, \<dots>, rows-1\<close>.\<close>

fun sweep :: "reader \<Rightarrow> Mat \<Rightarrow> nat list \<Rightarrow> int \<Rightarrow> Mat \<Rightarrow> error + Mat" where
  "sweep read room_map [] previous_number_of_segments cell_map = Inr cell_map"
| "sweep read room_map (y # ys) previous_number_of_segments cell_map =
     (let n = number_of_segments room_map y in
      if previous_number_of_segments < n then
        (case event_slice read room_map y (y - 1) [0..<cols room_map] False cell_map of
           Inl e \<Rightarrow> Inl e
         | Inr cell_map' \<Rightarrow> sweep read room_map ys n cell_map')
      else if previous_number_of_segments > n then
        (case event_slice read room_map (y - 1) y [0..<cols room_map] False cell_map of
           Inl e \<Rightarrow> Inl e
         | Inr cell_map' \<Rightarrow> sweep read room_map ys n cell_map')
      else sweep read room_map ys n cell_map)"

text \<open>Lines 45 to 193: the cell map starts as a copy of the room map.\<close>

definition decompose :: "reader \<Rightarrow> Mat \<Rightarrow> error + Mat" where
  "decompose read room_map =
     sweep read room_map [y_start room_map + 1..<rows room_map] (n_start room_map) room_map"

section \<open>II. Cells and the collaborators outside this file\<close>

text \<open>
  \<^verbatim>\<open>cv::Point\<close> has two \<^verbatim>\<open>int\<close> coordinates and is \<open>(0, 0)\<close> when
  default-constructed. Coordinates stay far from the limits of a 32-bit \<^verbatim>\<open>int\<close>, so
  they are modelled as unbounded integers. A \<^verbatim>\<open>double\<close> or \<^verbatim>\<open>float\<close> value
  is the real number it stands for. The function multiplies and adds doubles whose exact
  result need not be a double in lines 527 and 528 only; there the result of each
  operation is rounded (\<open>round_double\<close> below). Its other double operations are on
  integers of the size of map coordinates and are exact, and the rounding of the square
  root in \<^verbatim>\<open>cv::norm\<close> does not change its comparison with an integer.
\<close>

datatype Point = Point (pt_x: int) (pt_y: int)

datatype boustrophedonHorizontalLine =
  HorizontalLine (left_edge: Point) (right_edge: Point)

datatype Pose2D = Pose2D (pose_x: real) (pose_y: real) (theta: real)

text \<open>
  The function calls into code that is not part of this file. Each such call is a field
  of \<open>externals\<close>, and every definition below takes the record as its first argument:
  \<^item> OpenCV: \<^verbatim>\<open>cv::findContours\<close> (with \<^verbatim>\<open>CV_RETR_EXTERNAL\<close> and
    \<^verbatim>\<open>CV_CHAIN_APPROX_SIMPLE\<close>), \<^verbatim>\<open>cv::pointPolygonTest\<close> (without distance
    measuring: positive inside, zero on an edge, negative outside);
  \<^item> \<^verbatim>\<open>generalizedPolygon\<close>: \<^verbatim>\<open>getCenter\<close>, \<^verbatim>\<open>getMinMaxCoordinates\<close>
    (as \<open>(min_x, max_x, min_y, max_y)\<close>), and the number of columns of the image that
    \<^verbatim>\<open>drawPolygon\<close> creates; \<^verbatim>\<open>getVertexes\<close> is the contour the polygon was
    built from;
  \<^item> \<^verbatim>\<open>ConcordeTSPSolver::solveConcordeTSP\<close> (map, centers, resolution, start index);
  \<^item> \<^verbatim>\<open>path_planner_.planPath\<close>: the length it returns and the path it writes
    through its last argument;
  \<^item> \<^verbatim>\<open>std::atan2\<close> on two integers;
  \<^item> \<^verbatim>\<open>mapPath\<close> (map, path so far, field-of-view poses, offset vector, resolution,
    origin, starting position), which returns the path;
  \<^item> the arithmetic of the machine: \<open>round_double r\<close> is the double that an operation
    with the exact result \<open>r\<close> returns.
\<close>

record externals =
  findContours :: "Mat \<Rightarrow> Point list list"
  pointPolygonTest :: "Point list \<Rightarrow> Point \<Rightarrow> real"
  getCenter :: "Point list \<Rightarrow> Point"
  getMinMaxCoordinates :: "Point list \<Rightarrow> int \<times> int \<times> int \<times> int"
  drawPolygon_cols :: "Point list \<Rightarrow> int"
  solveConcordeTSP :: "Mat \<Rightarrow> Point list \<Rightarrow> real \<Rightarrow> int \<Rightarrow> int list"
  planPath_length :: "Mat \<Rightarrow> Point \<Rightarrow> Point \<Rightarrow> real \<Rightarrow> real"
  planPath_path :: "Mat \<Rightarrow> Point \<Rightarrow> Point \<Rightarrow> real \<Rightarrow> Point list"
  atan2 :: "int \<Rightarrow> int \<Rightarrow> real"
  mapPath :: "Mat \<Rightarrow> Pose2D list \<Rightarrow> Pose2D list \<Rightarrow> real \<times> real \<Rightarrow> real
                \<Rightarrow> real \<times> real \<Rightarrow> Point \<Rightarrow> Pose2D list"
  round_double :: "real \<Rightarrow> real"

section \<open>III. The start cell\<close>

text \<open>
  Lines 226 to 239: every cell is tested, and each cell that contains the starting point
  overwrites \<open>min_index\<close>.
\<close>

definition min_index :: "externals \<Rightarrow> Point list list \<Rightarrow> Point \<Rightarrow> int" where
  "min_index ext cell_polygons starting_point =
     foldl (\<lambda>mi cell.
              if pointPolygonTest ext (cell_polygons ! cell) starting_point \<ge> 0
              then int cell else mi)
       0 [0..<length cell_polygons]"

section \<open>III. The horizontal lines of one cell\<close>

text \<open>Conversion of a \<^verbatim>\<open>double\<close> to \<^verbatim>\<open>int\<close>: the fraction is cut off.\<close>

definition double_to_int :: "real \<Rightarrow> int" where
  "double_to_int r = (if 0 \<le> r then \<lfloor>r\<rfloor> else \<lceil>r\<rceil>)"

definition fow_radius_as_int :: "real \<Rightarrow> int" where
  "fow_radius_as_int fitting_circle_radius = \<lfloor>fitting_circle_radius\<rfloor>"

text \<open>Lines 267 to 271: the row of the first line.\<close>

definition first_line_y :: "int \<Rightarrow> int \<Rightarrow> int \<Rightarrow> int" where
  "first_line_y min_y max_y R =
     (if real_of_int (max_y - min_y) \<le> 2.0 * real_of_int R
      then double_to_int (real_of_int min_y + 0.5 * real_of_int (max_y - min_y))
      else (min_y - 1) + R)"

text \<open>
  Lines 278 to 290: the first white pixel of row \<open>y\<close> from column \<open>dx\<close> to the right.
  The pixel at \<open>dx\<close> is read before the bound \<^verbatim>\<open>dx < current_cell_map.cols\<close> is
  looked at. \<open>None\<close> stands for \<^verbatim>\<open>found == false\<close>.
\<close>

function leftmost_edge :: "Mat \<Rightarrow> int \<Rightarrow> int \<Rightarrow> int \<Rightarrow> int \<Rightarrow> error + Point option" where
  "leftmost_edge room_map y R cell_cols dx =
     (case at_uchar room_map y dx of
        Inl e \<Rightarrow> Inl e
      | Inr p \<Rightarrow>
          if p = 255 then Inr (Some (Point (dx + R) y))
          else if dx + 1 < cell_cols then leftmost_edge room_map y R cell_cols (dx + 1)
          else Inr None)"
  by pat_completeness auto
termination
  by (relation "measure (\<lambda>(room_map, y, R, cell_cols, dx). nat (cell_cols - dx))") auto

declare leftmost_edge.simps [simp del]

text \<open>Lines 293 to 304: the same from \<open>dx\<close> to the left, while \<^verbatim>\<open>dx > 0\<close>.\<close>

function rightmost_edge :: "Mat \<Rightarrow> int \<Rightarrow> int \<Rightarrow> int \<Rightarrow> error + Point option" where
  "rightmost_edge room_map y R dx =
     (case at_uchar room_map y dx of
        Inl e \<Rightarrow> Inl e
      | Inr p \<Rightarrow>
          if p = 255 then Inr (Some (Point (dx - R) y))
          else if dx - 1 > 0 then rightmost_edge room_map y R (dx - 1)
          else Inr None)"
  by pat_completeness auto
termination
  by (relation "measure (\<lambda>(room_map, y, R, dx). nat dx)") auto

declare rightmost_edge.simps [simp del]

text \<open>
  Lines 274 to 309: the line of row \<open>y\<close>. An edge that was not found keeps the value
  of the default-constructed point.
\<close>

definition edge_or_default :: "Point option \<Rightarrow> Point" where
  "edge_or_default e = (case e of None \<Rightarrow> Point 0 0 | Some p \<Rightarrow> p)"

definition current_line :: "Mat \<Rightarrow> int \<Rightarrow> int \<Rightarrow> int \<Rightarrow> int \<Rightarrow> int
    \<Rightarrow> error + boustrophedonHorizontalLine" where
  "current_line room_map R cell_cols min_x max_x y =
     (case leftmost_edge room_map y R cell_cols min_x of
        Inl e \<Rightarrow> Inl e
      | Inr l \<Rightarrow>
          (case rightmost_edge room_map y R max_x of
             Inl e \<Rightarrow> Inl e
           | Inr r \<Rightarrow> Inr (HorizontalLine (edge_or_default l) (edge_or_default r))))"

text \<open>
  Lines 272 to 313: \<^verbatim>\<open>do { ... y += fow_radius_as_int; } while(y <= max_y)\<close>.
  The loop does not end when the radius is not positive; \<open>None\<close> is that case.
\<close>

partial_function (option) path_lines_from ::
  "Mat \<Rightarrow> int \<Rightarrow> int \<Rightarrow> int \<Rightarrow> int \<Rightarrow> int \<Rightarrow> int
    \<Rightarrow> boustrophedonHorizontalLine list \<Rightarrow> (error + boustrophedonHorizontalLine list) option"
where
  "path_lines_from room_map R cell_cols min_x max_x max_y y path_lines =
     (case current_line room_map R cell_cols min_x max_x y of
        Inl e \<Rightarrow> Some (Inl e)
      | Inr l \<Rightarrow>
          if y + R \<le> max_y
          then path_lines_from room_map R cell_cols min_x max_x max_y (y + R) (path_lines @ [l])
          else Some (Inr (path_lines @ [l])))"

definition path_lines_of_cell ::
  "Mat \<Rightarrow> int \<Rightarrow> int \<Rightarrow> int \<times> int \<times> int \<times> int
    \<Rightarrow> (error + boustrophedonHorizontalLine list) option" where
  "path_lines_of_cell room_map R cell_cols box =
     (case box of (min_x, max_x, min_y, max_y) \<Rightarrow>
        path_lines_from room_map R cell_cols min_x max_x max_y (first_line_y min_y max_y R) [])"

section \<open>III. The path through one cell\<close>

text \<open>
  Lines 327 to 342: the side to start from, as \<open>(start_from_upper_path, left)\<close>.
  \<open>dist1\<close> and \<open>dist2\<close> are the path lengths to the left and right edge of the first
  line, \<open>dist3\<close> and \<open>dist4\<close> those to the left and right edge of the last line.
\<close>

definition start_side :: "real \<Rightarrow> real \<Rightarrow> real \<Rightarrow> real \<Rightarrow> bool \<times> bool" where
  "start_side dist1 dist2 dist3 dist4 =
     (if (dist3 < dist1 \<and> dist3 < dist2) \<or> (dist4 < dist1 \<and> dist4 < dist2)
      then (False, \<not> dist4 < dist3)
      else (True, \<not> dist2 < dist1))"

text \<open>
  \<^verbatim>\<open>cv::norm(robot_pos - astar_path[path_point]) >= path_eps\<close>, the Euclidean norm
  of an integer vector against an integer.
\<close>

definition norm_at_least :: "Point \<Rightarrow> Point \<Rightarrow> int \<Rightarrow> bool" where
  "norm_at_least a b path_eps =
     (real_of_int path_eps
        \<le> sqrt (real_of_int ((pt_x a - pt_x b) * (pt_x a - pt_x b)
                               + (pt_y a - pt_y b) * (pt_y a - pt_y b))))"

text \<open>Lines 364 to 371: the points of the planned path that are far enough apart.\<close>

fun follow_astar_path :: "int \<Rightarrow> Point list \<Rightarrow> Point \<times> Point list \<Rightarrow> Point \<times> Point list" where
  "follow_astar_path path_eps [] (robot_pos, fow_path) = (robot_pos, fow_path)"
| "follow_astar_path path_eps (q # astar_path) (robot_pos, fow_path) =
     (if norm_at_least robot_pos q path_eps
      then follow_astar_path path_eps astar_path (q, fow_path @ [q])
      else follow_astar_path path_eps astar_path (robot_pos, fow_path))"

text \<open>
  Lines 375 to 380 and 403 to 408: the points between the two edges of a line. Neither
  loop ends when \<open>path_eps\<close> is not positive and the edges are apart; \<open>None\<close> is that
  case.
\<close>

partial_function (option) points_to_right ::
  "int \<Rightarrow> boustrophedonHorizontalLine \<Rightarrow> int \<Rightarrow> Point list \<Rightarrow> Point list option" where
  "points_to_right path_eps line dx fow_path =
     (if pt_x (left_edge line) + dx < pt_x (right_edge line)
      then points_to_right path_eps line (dx + path_eps)
             (fow_path @ [Point (pt_x (left_edge line) + dx) (pt_y (left_edge line))])
      else Some fow_path)"

partial_function (option) points_to_left ::
  "int \<Rightarrow> boustrophedonHorizontalLine \<Rightarrow> int \<Rightarrow> Point list \<Rightarrow> Point list option" where
  "points_to_left path_eps line dx fow_path =
     (if pt_x (right_edge line) + dx > pt_x (left_edge line)
      then points_to_left path_eps line (dx - path_eps)
             (fow_path @ [Point (pt_x (right_edge line) + dx) (pt_y (right_edge line))])
      else Some fow_path)"

text \<open>
  Lines 350 to 414 (and again 421 to 485): one line of the cell. The state is
  \<open>(robot_pos, left, start, fow_middlepoint_path)\<close>.
\<close>

type_synonym cell_state = "Point \<times> bool \<times> bool \<times> Point list"

definition plan_line ::
  "externals \<Rightarrow> Mat \<Rightarrow> real \<Rightarrow> int \<Rightarrow> boustrophedonHorizontalLine \<Rightarrow> cell_state
    \<Rightarrow> cell_state option" where
  "plan_line ext room_map map_resolution path_eps line st =
     (case st of (robot_pos0, left, start, fow_path0) \<Rightarrow>
        let robot_pos1 =
              (if start then (if left then left_edge line else right_edge line)
               else robot_pos0)
        in if left then
             (case follow_astar_path path_eps
                     (planPath_path ext room_map robot_pos1 (left_edge line) map_resolution)
                     (robot_pos1, fow_path0) of
                (robot_pos2, fow_path1) \<Rightarrow>
                  (case points_to_right path_eps line path_eps (fow_path1 @ [left_edge line]) of
                     None \<Rightarrow> None
                   | Some fow_path2 \<Rightarrow>
                       Some (right_edge line, False, False, fow_path2 @ [right_edge line])))
           else
             (case follow_astar_path path_eps
                     (planPath_path ext room_map robot_pos1 (right_edge line) map_resolution)
                     (robot_pos1, fow_path0) of
                (robot_pos2, fow_path1) \<Rightarrow>
                  (case points_to_left path_eps line (- path_eps)
                          (fow_path1 @ [right_edge line]) of
                     None \<Rightarrow> None
                   | Some fow_path2 \<Rightarrow>
                       Some (left_edge line, True, False, fow_path2 @ [left_edge line]))))"

text \<open>Lines 348 and 419: the lines in the order of the iterator.\<close>

fun plan_lines ::
  "externals \<Rightarrow> Mat \<Rightarrow> real \<Rightarrow> int \<Rightarrow> boustrophedonHorizontalLine list \<Rightarrow> cell_state
    \<Rightarrow> cell_state option" where
  "plan_lines ext room_map map_resolution path_eps [] st = Some st"
| "plan_lines ext room_map map_resolution path_eps (line # lines) st =
     (case plan_line ext room_map map_resolution path_eps line st of
        None \<Rightarrow> None
      | Some st' \<Rightarrow> plan_lines ext room_map map_resolution path_eps lines st')"

text \<open>
  Lines 252 to 487: one pass of the loop over the cells, for the counter \<open>cell\<close>.
  \<^verbatim>\<open>cell_polygons[optimal_order[cell]]\<close> has to name a cell. The state between the
  cells is \<open>(robot_pos, fow_middlepoint_path)\<close>.
\<close>

definition cell_path ::
  "externals \<Rightarrow> Mat \<Rightarrow> real \<Rightarrow> int \<Rightarrow> int \<Rightarrow> Point list list \<Rightarrow> int list \<Rightarrow> nat
    \<Rightarrow> Point \<times> Point list \<Rightarrow> (error + Point \<times> Point list) option" where
  "cell_path ext room_map map_resolution path_eps R cell_polygons optimal_order cell st =
     (case st of (robot_pos, fow_path) \<Rightarrow>
      if \<not> cell < length optimal_order then Some (Inl (IndexOutOfRange (int cell)))
      else if optimal_order ! cell < 0 \<or> int (length cell_polygons) \<le> optimal_order ! cell
      then Some (Inl (IndexOutOfRange (optimal_order ! cell)))
      else
        let current_cell = cell_polygons ! nat (optimal_order ! cell)
        in case path_lines_of_cell room_map R (drawPolygon_cols ext current_cell)
                  (getMinMaxCoordinates ext current_cell) of
             None \<Rightarrow> None
           | Some (Inl e) \<Rightarrow> Some (Inl e)
           | Some (Inr path_lines) \<Rightarrow>
               let dist1 = planPath_length ext room_map robot_pos
                             (left_edge (path_lines ! 0)) map_resolution;
                   dist2 = planPath_length ext room_map robot_pos
                             (right_edge (path_lines ! 0)) map_resolution;
                   dist3 = planPath_length ext room_map robot_pos
                             (left_edge (last path_lines)) map_resolution;
                   dist4 = planPath_length ext room_map robot_pos
                             (right_edge (last path_lines)) map_resolution
               in case start_side dist1 dist2 dist3 dist4 of
                    (start_from_upper_path, left) \<Rightarrow>
                      (case plan_lines ext room_map map_resolution path_eps
                              (if start_from_upper_path then path_lines else rev path_lines)
                              (robot_pos, left, True, fow_path) of
                         None \<Rightarrow> None
                       | Some (robot_pos', left', start', fow_path') \<Rightarrow>
                           Some (Inr (robot_pos', fow_path'))))"

fun cell_paths ::
  "externals \<Rightarrow> Mat \<Rightarrow> real \<Rightarrow> int \<Rightarrow> int \<Rightarrow> Point list list \<Rightarrow> int list \<Rightarrow> nat list
    \<Rightarrow> Point \<times> Point list \<Rightarrow> (error + Point \<times> Point list) option" where
  "cell_paths ext room_map map_resolution path_eps R cell_polygons optimal_order [] st =
     Some (Inr st)"
| "cell_paths ext room_map map_resolution path_eps R cell_polygons optimal_order (cell # cells) st =
     (case cell_path ext room_map map_resolution path_eps R cell_polygons optimal_order cell st of
        None \<Rightarrow> None
      | Some (Inl e) \<Rightarrow> Some (Inl e)
      | Some (Inr st') \<Rightarrow>
          cell_paths ext room_map map_resolution path_eps R cell_polygons optimal_order cells st')"

section \<open>The whole function\<close>

text \<open>
  Lines 198 to 220: the cells of the cell map. \<open>read\<close> is the way the stencil of the
  sweep reads the room map (\<open>at_uchar\<close> or \<open>at_unchecked beyond\<close>).
\<close>

definition cells_of :: "externals \<Rightarrow> reader \<Rightarrow> Mat \<Rightarrow> (error + Point list list) option" where
  "cells_of ext read room_map =
     (case decompose read room_map of
        Inl e \<Rightarrow> Some (Inl e)
      | Inr cell_map \<Rightarrow> Some (Inr (findContours ext cell_map)))"

text \<open>Lines 226 to 243: the order in which the cells are visited.\<close>

definition optimal_order :: "externals \<Rightarrow> Mat \<Rightarrow> real \<Rightarrow> Point \<Rightarrow> Point list list \<Rightarrow> int list" where
  "optimal_order ext room_map map_resolution starting_position cell_polygons =
     solveConcordeTSP ext room_map (map (getCenter ext) cell_polygons) map_resolution
       (min_index ext cell_polygons starting_position)"

text \<open>Lines 43 to 488: the path of the middle point of the field of view.\<close>

definition fow_middlepoint_path ::
  "externals \<Rightarrow> reader \<Rightarrow> Mat \<Rightarrow> real \<Rightarrow> Point \<Rightarrow> real \<Rightarrow> int
    \<Rightarrow> (error + Point list) option" where
  "fow_middlepoint_path ext read room_map map_resolution starting_position
       fitting_circle_radius path_eps =
     (case cells_of ext read room_map of
        None \<Rightarrow> None
      | Some (Inl e) \<Rightarrow> Some (Inl e)
      | Some (Inr cell_polygons) \<Rightarrow>
          (case cell_paths ext room_map map_resolution path_eps
                  (fow_radius_as_int fitting_circle_radius) cell_polygons
                  (optimal_order ext room_map map_resolution starting_position cell_polygons)
                  [0..<length cell_polygons] (starting_position, []) of
             None \<Rightarrow> None
           | Some (Inl e) \<Rightarrow> Some (Inl e)
           | Some (Inr (robot_pos, fow_path)) \<Rightarrow> Some (Inr fow_path)))"

text \<open>Lines 500 to 517: each point with the angle towards the next one, cyclically.\<close>

definition fow_poses :: "externals \<Rightarrow> Point list \<Rightarrow> Pose2D list" where
  "fow_poses ext fow_path =
     map (\<lambda>point_index.
            let current_point = fow_path ! point_index;
                next_point = fow_path ! ((point_index + 1) mod length fow_path)
            in Pose2D (real_of_int (pt_x current_point)) (real_of_int (pt_y current_point))
                 (atan2 ext (pt_y next_point - pt_y current_point)
                            (pt_x next_point - pt_x current_point)))
       [0..<length fow_path]"

text \<open>
  Lines 526 to 529: a pose of the map in world coordinates. \<open>map_resolution\<close> is the
  value of a \<^verbatim>\<open>float\<close>; the product and the sum are taken in \<^verbatim>\<open>double\<close>, each
  rounded by \<open>fl\<close>.
\<close>

definition current_pose :: "(real \<Rightarrow> real) \<Rightarrow> real \<Rightarrow> real \<times> real \<Rightarrow> Pose2D \<Rightarrow> Pose2D" where
  "current_pose fl map_resolution map_origin pose =
     Pose2D (fl (fl (pose_x pose * map_resolution) + fst map_origin))
            (fl (fl (pose_y pose * map_resolution) + snd map_origin))
            (theta pose)"

text \<open>
  Lines 521 to 538. \<open>path\<close> is the vector the caller hands in; the poses are appended
  to it.
\<close>

definition path_of_poses ::
  "externals \<Rightarrow> Mat \<Rightarrow> Pose2D list \<Rightarrow> real \<Rightarrow> Point \<Rightarrow> real \<times> real \<Rightarrow> bool \<Rightarrow> real \<times> real
    \<Rightarrow> Pose2D list \<Rightarrow> Pose2D list" where
  "path_of_poses ext room_map path map_resolution starting_position map_origin
       plan_for_footprint robot_to_fow_vector poses =
     (if plan_for_footprint
      then path @ map (current_pose (round_double ext) map_resolution map_origin) poses
      else mapPath ext room_map path poses robot_to_fow_vector map_resolution map_origin
             starting_position)"

definition getExplorationPath ::
  "externals \<Rightarrow> reader \<Rightarrow> Mat \<Rightarrow> Pose2D list \<Rightarrow> real \<Rightarrow> Point \<Rightarrow> real \<times> real \<Rightarrow> real \<Rightarrow> int
    \<Rightarrow> bool \<Rightarrow> real \<times> real \<Rightarrow> (error + Pose2D list) option" where
  "getExplorationPath ext read room_map path map_resolution starting_position map_origin
       fitting_circle_radius path_eps plan_for_footprint robot_to_fow_vector =
     (case fow_middlepoint_path ext read room_map map_resolution starting_position
             fitting_circle_radius path_eps of
        None \<Rightarrow> None
      | Some (Inl e) \<Rightarrow> Some (Inl e)
      | Some (Inr fow_path) \<Rightarrow>
          Some (Inr (path_of_poses ext room_map path map_resolution starting_position
                       map_origin plan_for_footprint robot_to_fow_vector
                       (fow_poses ext fow_path))))"

declare path_lines_from.simps [code]
declare points_to_right.simps [code]
declare points_to_left.simps [code]

section \<open>Notions used to state the properties\<close>

text \<open>
  The rows visited by the loop of lines 272 to 313, for a positive radius: the first row,
  then steps of \<open>R\<close> while the next row is not below \<open>max_y\<close>.
\<close>

function line_rows :: "int \<Rightarrow> int \<Rightarrow> int \<Rightarrow> int list" where
  "line_rows R max_y y =
     (if 0 < R \<and> y + R \<le> max_y then y # line_rows R max_y (y + R) else [y])"
  by pat_completeness auto
termination
  by (relation "measure (\<lambda>(R, max_y, y). nat (max_y - y))") auto

declare line_rows.simps [simp del]

text \<open>One line per row, in order; the first failing read ends the list.\<close>

fun lines_of_rows :: "(int \<Rightarrow> error + boustrophedonHorizontalLine) \<Rightarrow> int list
    \<Rightarrow> error + boustrophedonHorizontalLine list" where
  "lines_of_rows f [] = Inr []"
| "lines_of_rows f (y # ys) =
     (case f y of
        Inl e \<Rightarrow> Inl e
      | Inr l \<Rightarrow> (case lines_of_rows f ys of Inl e \<Rightarrow> Inl e | Inr ls \<Rightarrow> Inr (l # ls)))"

text \<open>
  The points of one line traced from its left edge to its right edge (\<open>left\<close>) or back:
  the edge where the trace starts, the points in steps of \<open>path_eps\<close> strictly between
  the edges, and the other edge.
\<close>

definition line_points :: "int \<Rightarrow> bool \<Rightarrow> boustrophedonHorizontalLine \<Rightarrow> Point list" where
  "line_points path_eps left line =
     (if left
      then left_edge line
           # map (\<lambda>k. Point (pt_x (left_edge line) + k * path_eps) (pt_y (left_edge line)))
               [1..(pt_x (right_edge line) - pt_x (left_edge line) - 1) div path_eps]
           @ [right_edge line]
      else right_edge line
           # map (\<lambda>k. Point (pt_x (right_edge line) - k * path_eps) (pt_y (right_edge line)))
               [1..(pt_x (right_edge line) - pt_x (left_edge line) - 1) div path_eps]
           @ [left_edge line])"

text \<open>A serpentine through a list of lines: the direction alternates from line to line.\<close>

fun serpentine :: "int \<Rightarrow> bool \<Rightarrow> boustrophedonHorizontalLine list \<Rightarrow> Point list list" where
  "serpentine path_eps left [] = []"
| "serpentine path_eps left (line # lines) =
     line_points path_eps left line # serpentine path_eps (\<not> left) lines"

text \<open>
  The number of maximal runs of obstacle pixels in a row. A run is counted at its first
  pixel; \<open>prev\<close> tells whether the pixel before the row is an obstacle.
\<close>

fun obstacle_runs_from :: "bool \<Rightarrow> uchar list \<Rightarrow> nat" where
  "obstacle_runs_from prev [] = 0"
| "obstacle_runs_from prev (p # ps) =
     (if p = 0 \<and> \<not> prev then 1 else 0) + obstacle_runs_from (p = 0) ps"

definition obstacle_runs :: "uchar list \<Rightarrow> nat" where
  "obstacle_runs row = obstacle_runs_from False row"

text \<open>
  The part of a row from its first free pixel on, the part up to its last free pixel, and
  the part between the first and the last free pixel (both included).
\<close>

definition from_first_free :: "uchar list \<Rightarrow> uchar list" where
  "from_first_free row = dropWhile (\<lambda>p. p \<noteq> 255) row"

definition up_to_last_free :: "uchar list \<Rightarrow> uchar list" where
  "up_to_last_free row = rev (dropWhile (\<lambda>p. p \<noteq> 255) (rev row))"

definition between_first_and_last_free :: "uchar list \<Rightarrow> uchar list" where
  "between_first_and_last_free row = up_to_last_free (from_first_free row)"

text \<open>A grid of free and obstacle pixels only; a grid without a free pixel.\<close>

definition binary :: "Mat \<Rightarrow> bool" where
  "binary m = list_all (list_all (\<lambda>p. p = 0 \<or> p = 255)) m"

definition no_free :: "Mat \<Rightarrow> bool" where
  "no_free m = list_all (list_all (\<lambda>p. p \<noteq> 255)) m"

text \<open>
  \<open>only_blackened m m'\<close>: \<open>m'\<close> has the shape of \<open>m\<close>, and each pixel of \<open>m'\<close> is the
  pixel of \<open>m\<close> or is an obstacle where \<open>m\<close> is free.
\<close>

definition only_blackened :: "Mat \<Rightarrow> Mat \<Rightarrow> bool" where
  "only_blackened m m' =
     (length m' = length m \<and>
      (\<forall>y<length m. length (m' ! y) = length (m ! y) \<and>
         (\<forall>x<length (m ! y). m' ! y ! x = m ! y ! x \<or> (m ! y ! x = 255 \<and> m' ! y ! x = 0))))"


text \<open>
  Lines 362 to 371 (and 390 to 399): the points that are kept of the path planned from
  \<open>a\<close> to \<open>b\<close>, the robot standing at \<open>a\<close>.
\<close>

definition kept_points :: "externals \<Rightarrow> Mat \<Rightarrow> real \<Rightarrow> int \<Rightarrow> Point \<Rightarrow> Point \<Rightarrow> Point list" where
  "kept_points ext room_map map_resolution path_eps a b =
     snd (follow_astar_path path_eps (planPath_path ext room_map a b map_resolution) (a, []))"

text \<open>
  A line is entered at its left edge when it is traced to the right (\<open>left\<close>), at its
  right edge otherwise, and left at the other edge.
\<close>

definition entry_edge :: "bool \<Rightarrow> boustrophedonHorizontalLine \<Rightarrow> Point" where
  "entry_edge left line = (if left then left_edge line else right_edge line)"

definition exit_edge :: "bool \<Rightarrow> boustrophedonHorizontalLine \<Rightarrow> Point" where
  "exit_edge left line = (if left then right_edge line else left_edge line)"

text \<open>
  The traversal of a list of lines that starts with the robot at \<open>robot_pos\<close>: the lines
  are taken in the order of the list, the first one in the direction \<open>left\<close>, each next
  one in the opposite direction; every line is reached by the kept points of the path
  planned from where the robot stands to the edge where the line is entered, and then
  traced to its other edge.
\<close>

fun traverse :: "externals \<Rightarrow> Mat \<Rightarrow> real \<Rightarrow> int \<Rightarrow> Point \<Rightarrow> bool
    \<Rightarrow> boustrophedonHorizontalLine list \<Rightarrow> Point list" where
  "traverse ext room_map map_resolution path_eps robot_pos left [] = []"
| "traverse ext room_map map_resolution path_eps robot_pos left (line # lines) =
     kept_points ext room_map map_resolution path_eps robot_pos (entry_edge left line)
     @ line_points path_eps left line
     @ traverse ext room_map map_resolution path_eps (exit_edge left line) (\<not> left) lines"

text \<open>
  The finite numbers of the binary floating point formats \<^verbatim>\<open>double\<close> (53 bits of
  precision, exponents of the least bit from -1074 to 971) and \<^verbatim>\<open>float\<close> (24 bits,
  exponents from -149 to 104).
\<close>

definition is_double :: "real \<Rightarrow> bool" where
  "is_double r =
     (\<exists>(m::int) (e::nat). \<bar>m\<bar> < 2 ^ 53 \<and>
            (e \<le> 1074 \<and> r = real_of_int m / 2 ^ e \<or> e \<le> 971 \<and> r = real_of_int m * 2 ^ e))"

definition is_float :: "real \<Rightarrow> bool" where
  "is_float r =
     (\<exists>(m::int) (e::nat). \<bar>m\<bar> < 2 ^ 24 \<and>
            (e \<le> 149 \<and> r = real_of_int m / 2 ^ e \<or> e \<le> 104 \<and> r = real_of_int m * 2 ^ e))"

section \<open>Stand-ins for the collaborators and example maps\<close>

text \<open>
  Modelled from the spec: \<^verbatim>\<open>generalizedPolygon::getMinMaxCoordinates\<close> is not part of
  this file. The spec says of the polygon model: ``bounding box is min/max of vertex
  coordinates''.
\<close>

definition bounding_box :: "Point list \<Rightarrow> int \<times> int \<times> int \<times> int" where
  "bounding_box vertexes =
     (Min (set (map pt_x vertexes)), Max (set (map pt_x vertexes)),
      Min (set (map pt_y vertexes)), Max (set (map pt_y vertexes)))"

text \<open>
  Simple collaborators to run the model with: the point test of an axis-parallel
  rectangle, a contour finder that takes a map with a non-zero pixel as one cell with the
  corners of the map as vertexes and finds nothing in a black map, a tour that starts at
  the start index and visits the other cells in order, path lengths in the Manhattan
  metric, planned paths that consist of the goal alone, a constant angle, a mapping of
  the poses that appends them as they are, and exact arithmetic.
\<close>

definition box_test :: "Point list \<Rightarrow> Point \<Rightarrow> real" where
  "box_test vertexes p =
     (case bounding_box vertexes of (min_x, max_x, min_y, max_y) \<Rightarrow>
        if pt_x p < min_x \<or> max_x < pt_x p \<or> pt_y p < min_y \<or> max_y < pt_y p then - 1
        else if pt_x p = min_x \<or> pt_x p = max_x \<or> pt_y p = min_y \<or> pt_y p = max_y then 0
        else 1)"

definition whole_map_contour :: "Mat \<Rightarrow> Point list list" where
  "whole_map_contour m =
     (if list_all (list_all (\<lambda>p. p = 0)) m then []
      else [[Point 0 0, Point 0 (int (rows m) - 1),
             Point (int (cols m) - 1) (int (rows m) - 1), Point (int (cols m) - 1) 0]])"

definition example_externals :: externals where
  "example_externals =
     \<lparr> findContours = whole_map_contour,
       pointPolygonTest = box_test,
       getCenter = hd,
       getMinMaxCoordinates = bounding_box,
       drawPolygon_cols = (\<lambda>vertexes. fst (snd (bounding_box vertexes)) + 10),
       solveConcordeTSP =
         (\<lambda>m centers resolution start.
            start # filter (\<lambda>i. i \<noteq> start) (map int [0..<length centers])),
       planPath_length =
         (\<lambda>m a b resolution.
            resolution * real_of_int (\<bar>pt_x a - pt_x b\<bar> + \<bar>pt_y a - pt_y b\<bar>)),
       planPath_path = (\<lambda>m a b resolution. [b]),
       atan2 = (\<lambda>dy dx. 0),
       mapPath = (\<lambda>m path poses v resolution origin start. path @ poses),
       round_double = (\<lambda>r. r) \<rparr>"

text \<open>
  A room of 7 rows and 8 columns whose outermost pixels are walls; an all-free corridor of
  4 rows and 50 columns; an all-free rectangle of 100 rows and 100 columns; a map with one
  obstacle pixel in the middle row; a black map; two neighbouring cells.
\<close>

definition room_7x8 :: Mat where
  "room_7x8 = replicate 8 0 # replicate 5 (0 # replicate 6 255 @ [0]) @ [replicate 8 0]"

definition corridor_50x4 :: Mat where
  "corridor_50x4 = replicate 4 (replicate 50 255)"


definition island_3x5 :: Mat where
  "island_3x5 = [[255, 255, 255, 255, 255], [255, 255, 0, 255, 255], [255, 255, 255, 255, 255]]"

definition black_2x3 :: Mat where
  "black_2x3 = [[0, 0, 0], [0, 0, 0]]"

definition two_cells :: "Point list list" where
  "two_cells = [[Point 0 0, Point 0 3, Point 3 3, Point 3 0],
                [Point 3 0, Point 3 3, Point 6 3, Point 6 0]]"

text \<open>
  \<^verbatim>\<open>cv::findContours\<close> before OpenCV 3.2 does not take the outermost pixels of the
  image into account (its documentation: the contours touching the image border will be
  clipped). For a map whose free pixels fill the image, or all of it but the outermost
  pixels, the only contour is then the rectangle one pixel inside the image.
  \<open>clipping_externals\<close> are the simple collaborators with this contour finder.
\<close>

definition border_clipped_contour :: "Mat \<Rightarrow> Point list list" where
  "border_clipped_contour m =
     [[Point 1 1, Point 1 (int (rows m) - 2),
       Point (int (cols m) - 2) (int (rows m) - 2), Point (int (cols m) - 2) 1]]"

definition clipping_externals :: externals where
  "clipping_externals = example_externals \<lparr> findContours := border_clipped_contour \<rparr>"



definition hall_9x52 :: Mat where
  "hall_9x52 = replicate 52 0 # replicate 7 (0 # replicate 50 255 @ [0]) @ [replicate 52 0]"

definition hall_cells :: "Point list list" where
  "hall_cells = [[Point 1 1, Point 1 7, Point 50 7, Point 50 1]]"

definition hall_lines :: "boustrophedonHorizontalLine list" where
  "hall_lines =
     [HorizontalLine (Point 3 2) (Point 48 2), HorizontalLine (Point 3 4) (Point 48 4),
      HorizontalLine (Point 3 6) (Point 48 6)]"

text \<open>
  \<^verbatim>\<open>map_resolution\<close> is a \<^verbatim>\<open>float\<close>. Floats between 1/32 and 1/16 are the
  multiples of \<open>1 / 2 ^ 28\<close>; the one nearest to 0.05 is \<open>13421773 / 2 ^ 28\<close>, the value
  of the literal \<^verbatim>\<open>0.05f\<close>.
\<close>

definition resolution_0_05f :: real where
  "resolution_0_05f = 13421773 / 268435456"

section \<open>Properties\<close>

section \<open>The decomposition only blackens pixels\<close>

lemma only_blackened_refl: "only_blackened m m"
  by (simp add: only_blackened_def)

lemma only_blackened_trans:
  assumes "only_blackened a b" "only_blackened b c"
  shows "only_blackened a c"
  unfolding only_blackened_def
proof (intro conjI allI impI)
  show "length c = length a"
    using assms by (simp add: only_blackened_def)
next
  fix y assume y: "y < length a"
  then show "length (c ! y) = length (a ! y)"
    using assms by (simp add: only_blackened_def)
next
  fix y x assume y: "y < length a" and x: "x < length (a ! y)"
  have ab: "b ! y ! x = a ! y ! x \<or> (a ! y ! x = 255 \<and> b ! y ! x = 0)"
    using assms(1) y x by (simp add: only_blackened_def)
  have yb: "y < length b" and xb: "x < length (b ! y)"
    using assms(1) y x by (simp_all add: only_blackened_def)
  have bc: "c ! y ! x = b ! y ! x \<or> (b ! y ! x = 255 \<and> c ! y ! x = 0)"
    using assms(2) yb xb by (simp add: only_blackened_def)
  from ab bc show "c ! y ! x = a ! y ! x \<or> (a ! y ! x = 255 \<and> c ! y ! x = 0)"
    by auto
qed

lemma only_blackened_set_uchar:
  assumes "m ! y ! c = 255"
  shows "only_blackened m (set_uchar m y c 0)"
proof (cases "y < length m")
  case True
  show ?thesis
    unfolding only_blackened_def set_uchar_def
  proof (intro conjI allI impI)
    show "length (m[y := (m ! y)[c := 0]]) = length m" by simp
  next
    fix y' assume "y' < length m"
    then show "length (m[y := (m ! y)[c := 0]] ! y') = length (m ! y')"
      by (cases "y' = y") simp_all
  next
    fix y' x assume "y' < length m" "x < length (m ! y')"
    then show "m[y := (m ! y)[c := 0]] ! y' ! x = m ! y' ! x \<or>
               (m ! y' ! x = 255 \<and> m[y := (m ! y)[c := 0]] ! y' ! x = 0)"
      using assms by (cases "y' = y"; cases "x = c") simp_all
  qed
next
  case False
  then have "set_uchar m y c 0 = m"
    by (simp add: set_uchar_def list_update_beyond)
  then show ?thesis
    by (simp add: only_blackened_refl)
qed

lemma only_blackened_mark_separation:
  "only_blackened cell_map (mark_separation y cs cell_map)"
proof (induction cs arbitrary: cell_map)
  case Nil
  show ?case by (simp add: only_blackened_refl)
next
  case (Cons c cs)
  show ?case
  proof (cases "cell_map ! y ! c = 255")
    case True
    then show ?thesis
      using only_blackened_trans [OF only_blackened_set_uchar [OF True] Cons [of "set_uchar cell_map y c 0"]]
      by simp
  next
    case False
    then show ?thesis
      using Cons [of cell_map] by (simp add: only_blackened_refl)
  qed
qed

lemma only_blackened_mark_left_right:
  "only_blackened cell_map (mark_left_right room_map y x cell_map)"
  unfolding mark_left_right_def
  by (rule only_blackened_trans [OF only_blackened_mark_separation only_blackened_mark_separation])

lemma only_blackened_event_slice:
  "event_slice read room_map ys yt xs hw cell_map = Inr cell_map' \<Longrightarrow> only_blackened cell_map cell_map'"
proof (induction xs arbitrary: hw cell_map)
  case Nil
  then show ?case by (simp add: only_blackened_refl)
next
  case (Cons x xs)
  show ?case
  proof (cases "room_map ! ys ! x = 255 \<and> \<not> hw")
    case True
    with Cons.prems have "event_slice read room_map ys yt xs True cell_map = Inr cell_map'"
      by simp
    then show ?thesis by (rule Cons.IH)
  next
    case False
    show ?thesis
    proof (cases "hw \<and> room_map ! ys ! x = 0")
      case True
      with False Cons.prems obtain cp where
        cp: "critical_point read room_map (int yt) (int x) = Inr cp" and
        rest: "event_slice read room_map ys yt xs hw
                 (if cp then mark_left_right room_map ys x cell_map else cell_map) = Inr cell_map'"
        by (auto split: sum.splits)
      have "only_blackened cell_map (if cp then mark_left_right room_map ys x cell_map else cell_map)"
        by (simp add: only_blackened_refl only_blackened_mark_left_right)
      then show ?thesis
        using Cons.IH [OF rest] by (rule only_blackened_trans)
    next
      case F2: False
      with False Cons.prems have "event_slice read room_map ys yt xs hw cell_map = Inr cell_map'"
        by auto
      then show ?thesis by (rule Cons.IH)
    qed
  qed
qed

lemma only_blackened_sweep:
  "sweep read room_map ys prev cell_map = Inr cell_map' \<Longrightarrow> only_blackened cell_map cell_map'"
proof (induction ys arbitrary: prev cell_map)
  case Nil
  then show ?case by (simp add: only_blackened_refl)
next
  case (Cons y ys)
  define n where "n = number_of_segments room_map y"
  consider (inev) "prev < n" | (outev) "\<not> prev < n" "prev > n" | (none) "\<not> prev < n" "\<not> prev > n"
    by blast
  then show ?case
  proof cases
    case inev
    with Cons.prems obtain cm where
      e: "event_slice read room_map y (y - 1) [0..<cols room_map] False cell_map = Inr cm" and
      r: "sweep read room_map ys n cm = Inr cell_map'"
      by (auto simp: n_def Let_def split: sum.splits)
    show ?thesis
      using only_blackened_event_slice [OF e] Cons.IH [OF r] by (rule only_blackened_trans)
  next
    case outev
    with Cons.prems obtain cm where
      e: "event_slice read room_map (y - 1) y [0..<cols room_map] False cell_map = Inr cm" and
      r: "sweep read room_map ys n cm = Inr cell_map'"
      by (auto simp: n_def Let_def split: sum.splits)
    show ?thesis
      using only_blackened_event_slice [OF e] Cons.IH [OF r] by (rule only_blackened_trans)
  next
    case none
    with Cons.prems have "sweep read room_map ys n cell_map = Inr cell_map'"
      by (simp add: n_def Let_def)
    then show ?thesis by (rule Cons.IH)
  qed
qed

lemma only_blackened_decompose:
  "decompose read room_map = Inr cell_map \<Longrightarrow> only_blackened room_map cell_map"
  unfolding decompose_def by (rule only_blackened_sweep)

text \<open>
  Claim C8. The obstacle pixels of the decomposed grid are a superset of those of the
  input: the cell map has the shape of the room map, every obstacle pixel of the room map
  is an obstacle pixel of the cell map, and a pixel that differs was free and is now an
  obstacle. This holds for every way of reading the stencil (\<open>read\<close>), whenever a cell
  map is produced.
\<close>

theorem decomposed_obstacles_superset:
  assumes "decompose read room_map = Inr cell_map"
  shows "rows cell_map = rows room_map \<and>
         (\<forall>y<rows room_map. length (cell_map ! y) = length (room_map ! y) \<and>
            (\<forall>x<length (room_map ! y).
               (room_map ! y ! x = 0 \<longrightarrow> cell_map ! y ! x = 0) \<and>
               (cell_map ! y ! x \<noteq> room_map ! y ! x \<longrightarrow>
                  room_map ! y ! x = 255 \<and> cell_map ! y ! x = 0)))"
proof (intro conjI allI impI)
  note ob = only_blackened_decompose [OF assms, unfolded only_blackened_def]
  show "rows cell_map = rows room_map"
    using ob by (simp add: rows_def)
  fix y assume y: "y < rows room_map"
  then show "length (cell_map ! y) = length (room_map ! y)"
    using ob by (simp add: rows_def)
  fix x assume x: "x < length (room_map ! y)"
  have px: "cell_map ! y ! x = room_map ! y ! x \<or>
            (room_map ! y ! x = 255 \<and> cell_map ! y ! x = 0)"
    using ob y x by (simp add: rows_def)
  show "cell_map ! y ! x = 0" if "room_map ! y ! x = 0"
    using px that by auto
  show "room_map ! y ! x = 255" if "cell_map ! y ! x \<noteq> room_map ! y ! x"
    using px that by auto
  show "cell_map ! y ! x = 0" if "cell_map ! y ! x \<noteq> room_map ! y ! x"
    using px that by auto
qed

theorem decomposed_obstacles_superset_witness:
  "decompose at_uchar island_3x5 =
     Inr [[255, 255, 255, 255, 255], [255, 0, 0, 0, 0], [255, 255, 255, 255, 255]] \<and>
   decompose (at_unchecked (\<lambda>y x. 0)) room_7x8 = Inr room_7x8 \<and>
   decompose (at_unchecked (\<lambda>y x. 255)) [[255, 255, 255], [255, 255, 0]] =
     Inr [[255, 255, 255], [255, 0, 0]] \<and>
   rows [[255, 255, 255, 255, 255], [255, 0, 0, 0, 0], [255, 255, 255, 255, 255 :: uchar]]
     = rows island_3x5 \<and>
   island_3x5 ! 1 ! 2 = 0 \<and> island_3x5 ! 1 ! 3 = 255"
proof -
  have a: "decompose at_uchar island_3x5 =
     Inr [[255, 255, 255, 255, 255], [255, 0, 0, 0, 0], [255, 255, 255, 255, 255]]"
    by code_simp
  have b: "decompose (at_unchecked (\<lambda>y x. 0)) room_7x8 = Inr room_7x8"
    by code_simp
  have c: "decompose (at_unchecked (\<lambda>y x. 255)) [[255, 255, 255], [255, 255, 0]] =
     Inr [[255, 255, 255], [255, 0, 0]]"
    by code_simp
  have d: "island_3x5 ! 1 ! 2 = 0" "island_3x5 ! 1 ! 3 = 255"
    by (simp_all add: island_3x5_def)
  show ?thesis
    using a b c d decomposed_obstacles_superset [OF a] decomposed_obstacles_superset [OF b]
      decomposed_obstacles_superset [OF c]
    by blast
qed

section \<open>A map without a free pixel\<close>

lemma slice_no_white:
  assumes "\<forall>x\<in>set xs. m ! y ! x \<noteq> 255"
  shows "foldl (\<lambda>s x. slice_pixel (m ! y ! x) s) (0, False, False) xs = (0, False, False)"
  using assms by (induction xs) simp_all

lemma start_row_no_white:
  assumes "\<forall>x\<in>set xs. m ! y ! x \<noteq> 255"
  shows "foldl (\<lambda>s x. start_pixel (m ! y ! x) y s) (0, 0, False, False) xs = (0, 0, False, False)"
  using assms by (induction xs) simp_all

lemma start_rows_no_white:
  assumes "\<forall>y\<in>set ys. \<forall>x<cols m. m ! y ! x \<noteq> 255"
  shows "start_rows m ys (0, 0, False, False) = (0, 0, False, False)"
  using assms
proof (induction ys)
  case Nil
  then show ?case by simp
next
  case (Cons y ys)
  have "start_row m y (0, 0, False, False) = (0, 0, False, False)"
    unfolding start_row_def using Cons.prems by (intro start_row_no_white) simp
  with Cons show ?case by simp
qed

lemma sweep_no_white:
  assumes "\<forall>y\<in>set ys. number_of_segments room_map y = 0"
  shows "sweep read room_map ys 0 cell_map = Inr cell_map"
  using assms by (induction ys) simp_all

lemma decompose_no_white:
  assumes "\<forall>y<rows m. \<forall>x<cols m. m ! y ! x \<noteq> 255"
  shows "decompose read m = Inr m"
proof -
  have s: "find_start m = (0, 0, False, False)"
    unfolding find_start_def using assms by (intro start_rows_no_white) simp
  have n: "\<forall>y\<in>set [y_start m + 1..<rows m]. number_of_segments m y = 0"
  proof
    fix y assume "y \<in> set [y_start m + 1..<rows m]"
    then have "y < rows m" by simp
    then have "\<forall>x\<in>set [0..<cols m]. m ! y ! x \<noteq> 255"
      using assms by simp
    then show "number_of_segments m y = 0"
      unfolding number_of_segments_def by (simp add: slice_no_white)
  qed
  show ?thesis
    unfolding decompose_def using sweep_no_white [OF n] s by (simp add: n_start_def)
qed

lemma no_free_pixels:
  assumes "rectangular m" "no_free m"
  shows "\<forall>y<rows m. \<forall>x<cols m. m ! y ! x \<noteq> 255"
proof (intro allI impI)
  fix y x assume y: "y < rows m" and x: "x < cols m"
  then have r: "m ! y \<in> set m"
    by (simp add: rows_def)
  then have "length (m ! y) = cols m"
    using assms(1) by (simp add: rectangular_def list_all_iff)
  then have "m ! y ! x \<in> set (m ! y)"
    using x by simp
  with r show "m ! y ! x \<noteq> 255"
    using assms(2) by (auto simp: no_free_def list_all_iff)
qed

lemma black_map:
  assumes "binary m" "no_free m"
  shows "list_all (list_all (\<lambda>p. p = 0)) m"
  using assms by (auto simp: binary_def no_free_def list_all_iff)

text \<open>
  Claim C4. For every rectangular grid of free and obstacle pixels that has no free
  pixel, the cell map is the input map (nothing is painted), no cell is found, and the
  function appends no pose to the path it was handed, so an empty path stays empty. The
  contour finder is taken to find nothing in a map whose pixels are all zero; in the
  field-of-view mode the result is what \<^verbatim>\<open>mapPath\<close> returns for an empty list of
  poses.
\<close>

theorem no_free_cell_empty_path:
  assumes "rectangular room_map" "binary room_map" "no_free room_map"
    and "\<And>cell_map. list_all (list_all (\<lambda>p. p = 0)) cell_map \<Longrightarrow> findContours ext cell_map = []"
  shows "decompose read room_map = Inr room_map \<and>
         cells_of ext read room_map = Some (Inr []) \<and>
         getExplorationPath ext read room_map path map_resolution starting_position map_origin
           fitting_circle_radius path_eps True robot_to_fow_vector = Some (Inr path) \<and>
         getExplorationPath ext read room_map path map_resolution starting_position map_origin
           fitting_circle_radius path_eps False robot_to_fow_vector =
           Some (Inr (mapPath ext room_map path [] robot_to_fow_vector map_resolution
                        map_origin starting_position))"
proof -
  have d: "decompose read room_map = Inr room_map" for read
    by (rule decompose_no_white [OF no_free_pixels [OF assms(1,3)]])
  have c: "cells_of ext read room_map = Some (Inr [])"
    using d [of read] assms(4) [OF black_map [OF assms(2,3)]] by (simp add: cells_of_def)
  have f: "fow_middlepoint_path ext read room_map map_resolution starting_position
             fitting_circle_radius path_eps = Some (Inr [])"
    using c by (simp add: fow_middlepoint_path_def)
  have p: "fow_poses ext [] = []"
    by (simp add: fow_poses_def)
  show ?thesis
    using d c f p by (simp add: getExplorationPath_def path_of_poses_def)
qed

theorem no_free_cell_empty_path_witness:
  "decompose at_uchar black_2x3 = Inr black_2x3 \<and>
   cells_of example_externals at_uchar black_2x3 = Some (Inr []) \<and>
   getExplorationPath example_externals at_uchar black_2x3 [] 0.05 (Point 1 1) (- 2.5, - 2.5) 2 2 True
     (0, 0) = Some (Inr []) \<and>
   getExplorationPath example_externals at_uchar black_2x3 [] 0.05 (Point 1 1) (- 2.5, - 2.5) 2 2 False
     (0, 0) = Some (Inr [])"
proof -
  have r: "rectangular black_2x3" and b: "binary black_2x3" and n: "no_free black_2x3"
    by (simp_all add: black_2x3_def rectangular_def binary_def no_free_def cols_def)
  have c: "findContours example_externals cell_map = []"
    if "list_all (list_all (\<lambda>p. p = 0)) cell_map" for cell_map
    using that by (simp add: example_externals_def whole_map_contour_def)
  have m: "mapPath example_externals black_2x3 [] [] (0, 0) 0.05 (- 2.5, - 2.5) (Point 1 1) = []"
    by (simp add: example_externals_def)
  show ?thesis
    using no_free_cell_empty_path [OF r b n c, where read = at_uchar and path = "[]"
        and map_resolution = "0.05" and starting_position = "Point 1 1"
        and map_origin = "(- 2.5, - 2.5)" and fitting_circle_radius = 2 and path_eps = 2
        and robot_to_fow_vector = "(0, 0)"] m
    by simp
qed

section \<open>The initial slice\<close>

lemma foldl_nth_upt:
  "foldl (\<lambda>s x. g (xs ! x) s) s [0..<length xs] = foldl (\<lambda>s p. g p s) s xs"
proof -
  have "foldl (\<lambda>s p. g p s) s (map (nth xs) [0..<length xs]) =
        foldl (\<lambda>s x. g (xs ! x) s) s [0..<length xs]"
    by (simp add: foldl_map)
  then show ?thesis
    by (simp add: map_nth)
qed

lemma start_pixels_found:
  assumes "\<forall>p\<in>set xs. p = 0 \<or> p = 255"
  shows "\<exists>ob'. foldl (\<lambda>s p. start_pixel p y s) (ys, n, True, ob) xs =
           (ys, n + int (obstacle_runs_from ob xs), True, ob')"
  using assms
proof (induction xs arbitrary: n ob)
  case Nil
  then show ?case by simp
next
  case (Cons p ps)
  then have p: "p = 0 \<or> p = 255" and ps: "\<forall>p\<in>set ps. p = 0 \<or> p = 255"
    by simp_all
  from p show ?case
  proof
    assume p0: "p = 0"
    show ?thesis
    proof (cases ob)
      case True
      with p0 Cons.IH [OF ps, of n True] show ?thesis by simp
    next
      case False
      obtain ob' where "foldl (\<lambda>s p. start_pixel p y s) (ys, n + 1, True, True) ps =
           (ys, n + 1 + int (obstacle_runs_from True ps), True, ob')"
        using Cons.IH [OF ps, of "n + 1" True] by blast
      with p0 False show ?thesis by simp
    qed
  next
    assume p1: "p = 255"
    then have "p \<noteq> 0" by simp
    with p1 Cons.IH [OF ps, of n False] show ?thesis
      by (cases ob) simp_all
  qed
qed

lemma start_pixels_no_free:
  assumes "255 \<notin> set xs"
  shows "foldl (\<lambda>s p. start_pixel p y s) (ys, n, False, ob) xs = (ys, n, False, ob)"
  using assms by (induction xs) auto

lemma start_pixels_row:
  assumes "\<forall>p\<in>set row. p = 0 \<or> p = 255" "255 \<in> set row"
  shows "\<exists>ob'. foldl (\<lambda>s p. start_pixel p y s) (ys, n, False, False) row =
           (y, n + int (obstacle_runs (from_first_free row)), True, ob')"
proof -
  define pre where "pre = takeWhile (\<lambda>p. p \<noteq> 255) row"
  define rest where "rest = dropWhile (\<lambda>p. p \<noteq> 255) row"
  have row: "row = pre @ rest"
    by (simp add: pre_def rest_def)
  have "rest \<noteq> []"
    using assms(2) by (auto simp: rest_def)
  then obtain post where rest: "rest = 255 # post"
    using hd_dropWhile [of "\<lambda>p. p \<noteq> 255" row]
    by (cases rest) (auto simp: rest_def)
  have pre: "255 \<notin> set pre"
    unfolding pre_def by (auto dest: set_takeWhileD)
  have post: "\<forall>p\<in>set post. p = 0 \<or> p = 255"
    using assms(1) row rest by auto
  obtain ob' where f: "foldl (\<lambda>s p. start_pixel p y s) (y, n, True, False) post =
           (y, n + int (obstacle_runs_from False post), True, ob')"
    using start_pixels_found [OF post] by blast
  have "foldl (\<lambda>s p. start_pixel p y s) (ys, n, False, False) row =
        foldl (\<lambda>s p. start_pixel p y s) (ys, n, False, False) (255 # post)"
    by (simp add: row rest start_pixels_no_free [OF pre])
  also have "\<dots> = (y, n + int (obstacle_runs_from False post), True, ob')"
    using f by simp
  finally show ?thesis
    by (auto simp: obstacle_runs_def from_first_free_def rest_def [symmetric] rest)
qed

lemma start_row_no_free:
  assumes "length (m ! y) = cols m" "255 \<notin> set (m ! y)"
  shows "start_row m y (ys, n, False, ob) = (ys, n, False, ob)"
  using start_pixels_no_free [OF assms(2), of y ys n ob]
    foldl_nth_upt [of "\<lambda>p s. start_pixel p y s" "m ! y" "(ys, n, False, ob)"]
  by (simp add: start_row_def assms(1))

lemma start_row_free:
  assumes "length (m ! y) = cols m" "\<forall>p\<in>set (m ! y). p = 0 \<or> p = 255" "255 \<in> set (m ! y)"
  shows "\<exists>ob'. start_row m y (ys, n, False, False) =
           (y, n + int (obstacle_runs (from_first_free (m ! y))), True, ob')"
  using start_pixels_row [OF assms(2,3), of y ys n]
    foldl_nth_upt [of "\<lambda>p s. start_pixel p y s" "m ! y" "(ys, n, False, False)"]
  by (simp add: start_row_def assms(1))

lemma start_rows_first_free:
  assumes "\<forall>y\<in>set ys. length (m ! y) = cols m \<and> (\<forall>p\<in>set (m ! y). p = 0 \<or> p = 255)"
    and "\<exists>y\<in>set ys. 255 \<in> set (m ! y)"
  shows "\<exists>pre y0 post ob'. ys = pre @ y0 # post \<and> (\<forall>y\<in>set pre. 255 \<notin> set (m ! y)) \<and>
           255 \<in> set (m ! y0) \<and>
           start_rows m ys (0, 0, False, False) =
             (y0, int (obstacle_runs (from_first_free (m ! y0))), True, ob')"
  using assms
proof (induction ys)
  case Nil
  then show ?case by simp
next
  case (Cons y ys)
  show ?case
  proof (cases "255 \<in> set (m ! y)")
    case True
    obtain ob' where "start_row m y (0, 0, False, False) =
           (y, 0 + int (obstacle_runs (from_first_free (m ! y))), True, ob')"
      using start_row_free [of m y 0 0] Cons.prems(1) True by auto
    then have "start_rows m (y # ys) (0, 0, False, False) =
           (y, int (obstacle_runs (from_first_free (m ! y))), True, ob')"
      by simp
    with True show ?thesis
      by (intro exI [of _ "[]"] exI [of _ y] exI [of _ ys] exI [of _ ob']) simp
  next
    case False
    have s: "start_row m y (0, 0, False, False) = (0, 0, False, False)"
      using start_row_no_free [of m y 0 0 False] Cons.prems(1) False by simp
    from Cons.prems False obtain pre y0 post ob' where
      r: "ys = pre @ y0 # post" "\<forall>y\<in>set pre. 255 \<notin> set (m ! y)" "255 \<in> set (m ! y0)"
        "start_rows m ys (0, 0, False, False) =
           (y0, int (obstacle_runs (from_first_free (m ! y0))), True, ob')"
      using Cons.IH by auto
    have "start_rows m (y # ys) (0, 0, False, False) =
           (y0, int (obstacle_runs (from_first_free (m ! y0))), True, ob')"
      using s r(4) by simp
    with r False show ?thesis
      by (intro exI [of _ "y # pre"] exI [of _ y0] exI [of _ post] exI [of _ ob']) simp
  qed
qed

lemma find_start_first_free:
  assumes "rectangular m" "binary m" "\<exists>r\<in>set m. 255 \<in> set r"
  shows "y_start m < rows m \<and> 255 \<in> set (m ! y_start m) \<and>
         (\<forall>y<y_start m. 255 \<notin> set (m ! y)) \<and>
         n_start m = int (obstacle_runs (from_first_free (m ! y_start m)))"
proof -
  have a: "\<forall>y\<in>set [0..<rows m]. length (m ! y) = cols m \<and> (\<forall>p\<in>set (m ! y). p = 0 \<or> p = 255)"
    using assms(1,2) by (auto simp: rectangular_def binary_def rows_def list_all_iff)
  have b: "\<exists>y\<in>set [0..<rows m]. 255 \<in> set (m ! y)"
  proof -
    from assms(3) obtain r where "r \<in> set m" "255 \<in> set r"
      by blast
    then obtain i where "i < length m" "m ! i = r"
      by (auto simp: in_set_conv_nth)
    with \<open>255 \<in> set r\<close> show ?thesis
      by (auto simp: rows_def)
  qed
  obtain pre y0 post ob' where
    r: "[0..<rows m] = pre @ y0 # post" "\<forall>y\<in>set pre. 255 \<notin> set (m ! y)" "255 \<in> set (m ! y0)"
       "find_start m = (y0, int (obstacle_runs (from_first_free (m ! y0))), True, ob')"
    using start_rows_first_free [OF a b] unfolding find_start_def by blast
  have len: "length pre = y0" and pre: "pre = [0..<y0]" and lt: "y0 < rows m"
  proof -
    have "y0 = [0..<rows m] ! length pre"
      by (simp add: r(1))
    moreover have l: "length pre < rows m"
      using arg_cong [OF r(1), of length] by simp
    ultimately show "length pre = y0" by simp
    then show "y0 < rows m" using l by simp
    have "pre = take (length pre) [0..<rows m]"
      by (simp add: r(1))
    then show "pre = [0..<y0]"
      using \<open>length pre = y0\<close> l by (simp add: take_upt)
  qed
  show ?thesis
    using r(2,3,4) pre lt by (simp add: y_start_def n_start_def)
qed

lemma obstacle_runs_from_append:
  "obstacle_runs_from b (ys @ zs) =
     obstacle_runs_from b ys + obstacle_runs_from (if ys = [] then b else last ys = 0) zs"
  by (induction ys arbitrary: b) simp_all

lemma obstacle_runs_from_zeros:
  assumes "\<forall>p\<in>set zs. p = 0"
  shows "obstacle_runs_from b zs = (if zs = [] \<or> b then 0 else 1)"
  using assms by (induction zs arbitrary: b) auto

lemma trailing_run:
  assumes "\<forall>p\<in>set xs. p = 0 \<or> p = 255" "255 \<in> set xs"
  shows "obstacle_runs xs = obstacle_runs (up_to_last_free xs) + (if last xs = 0 then 1 else 0)"
proof -
  define zs where "zs = rev (takeWhile (\<lambda>p. p \<noteq> 255) (rev xs))"
  define ys where "ys = up_to_last_free xs"
  have "rev (ys @ zs) = rev xs"
    by (simp add: ys_def zs_def up_to_last_free_def)
  then have xs: "xs = ys @ zs"
    by (simp only: rev_is_rev_conv)
  have d: "dropWhile (\<lambda>p. p \<noteq> 255) (rev xs) \<noteq> []"
    using assms(2) by auto
  then have "hd (dropWhile (\<lambda>p. p \<noteq> 255) (rev xs)) = 255"
    using hd_dropWhile [of "\<lambda>p. p \<noteq> 255" "rev xs"] by simp
  then have ys: "ys \<noteq> []" "last ys = 255"
    using d by (simp_all add: ys_def up_to_last_free_def last_rev)
  have zs: "\<forall>p\<in>set zs. p = 0"
  proof
    fix p assume "p \<in> set zs"
    then have "p \<noteq> 255" "p \<in> set xs"
      by (auto simp: zs_def dest: set_takeWhileD)
    with assms(1) show "p = 0" by auto
  qed
  have l: "last xs = 0 \<longleftrightarrow> zs \<noteq> []"
  proof (cases "zs = []")
    case True
    with xs ys show ?thesis by simp
  next
    case False
    then have "last xs = last zs" by (simp add: xs)
    with False zs show ?thesis by simp
  qed
  have "obstacle_runs xs = obstacle_runs_from False ys + obstacle_runs_from False zs"
    using ys by (simp add: obstacle_runs_def xs obstacle_runs_from_append)
  then show ?thesis
    using l obstacle_runs_from_zeros [OF zs, of False]
    by (simp add: obstacle_runs_def ys_def [symmetric])
qed

text \<open>
  Claim C5 (amended). In a rectangular grid of free and obstacle pixels with a free pixel,
  \<open>y_start\<close> is the smallest row that has a free pixel, and \<open>n_start\<close> is the number
  of maximal obstacle runs of that row that begin after its first free pixel: the runs
  between the first and the last free pixel, and one more when the row ends in an obstacle
  run after its last free pixel.
\<close>

theorem initial_slice:
  assumes "rectangular m" "binary m" "\<exists>r\<in>set m. 255 \<in> set r"
  shows "y_start m < rows m \<and> 255 \<in> set (m ! y_start m) \<and>
         (\<forall>y<y_start m. 255 \<notin> set (m ! y)) \<and>
         n_start m = int (obstacle_runs (from_first_free (m ! y_start m))) \<and>
         n_start m = int (obstacle_runs (between_first_and_last_free (m ! y_start m)))
                     + (if last (m ! y_start m) = 0 then 1 else 0)"
proof -
  note f = find_start_first_free [OF assms]
  define row where "row = m ! y_start m"
  have y: "y_start m < length m"
    using f by (simp add: rows_def)
  have bin: "\<forall>p\<in>set (from_first_free row). p = 0 \<or> p = 255"
    using assms(2) y by (auto simp: binary_def list_all_iff row_def from_first_free_def
        dest!: set_dropWhileD)
  have free: "255 \<in> set (from_first_free row)"
  proof -
    have "row = takeWhile (\<lambda>p. p \<noteq> 255) row @ from_first_free row"
      by (simp add: from_first_free_def)
    moreover have "255 \<notin> set (takeWhile (\<lambda>p. p \<noteq> 255) row)"
      by (auto dest: set_takeWhileD)
    moreover have "255 \<in> set row"
      using f by (simp add: row_def)
    ultimately show ?thesis
      by (metis Un_iff set_append)
  qed
  have l: "last (from_first_free row) = last row"
  proof -
    have "from_first_free row \<noteq> []" using free by auto
    moreover have "row = takeWhile (\<lambda>p. p \<noteq> 255) row @ from_first_free row"
      by (simp add: from_first_free_def)
    ultimately show ?thesis by (metis last_appendR)
  qed
  have "obstacle_runs (from_first_free row) =
        obstacle_runs (between_first_and_last_free row) + (if last row = 0 then 1 else 0)"
    using trailing_run [OF bin free] l by (simp add: between_first_and_last_free_def)
  then show ?thesis
    using f by (simp add: row_def)
qed

theorem initial_slice_witness:
  "y_start room_7x8 = 1 \<and> n_start room_7x8 = 1 \<and>
   obstacle_runs (from_first_free (room_7x8 ! 1)) = 1 \<and>
   obstacle_runs (between_first_and_last_free (room_7x8 ! 1)) = 0 \<and>
   last (room_7x8 ! 1) = 0"
proof -
  have r: "rectangular room_7x8" and b: "binary room_7x8"
    by code_simp+
  have "255 \<in> set (room_7x8 ! 1)" "room_7x8 ! 1 \<in> set room_7x8"
    by code_simp+
  then have f: "\<exists>r\<in>set room_7x8. 255 \<in> set r"
    by blast
  have y: "y_start room_7x8 = 1" and n: "n_start room_7x8 = 1"
    by code_simp+
  have o: "obstacle_runs (from_first_free (room_7x8 ! 1)) = 1"
    "obstacle_runs (between_first_and_last_free (room_7x8 ! 1)) = 0"
    "last (room_7x8 ! 1) = 0"
    by code_simp+
  show ?thesis
    using initial_slice [OF r b f] y n o by simp
qed

text \<open>
  In the walled room the first free row ends in a wall: the code counts that run, the
  runs between the first and the last free pixel are none.
\<close>

theorem n_start_counterexample:
  "n_start room_7x8
     \<noteq> int (obstacle_runs (between_first_and_last_free (room_7x8 ! y_start room_7x8)))"
  by code_simp

section \<open>The start cell\<close>

lemma min_index_upto:
  fixes P :: "nat \<Rightarrow> bool"
  defines "r \<equiv> \<lambda>n. foldl (\<lambda>mi cell. if P cell then int cell else mi) (0::int) [0..<n]"
  shows "((\<exists>c<n. P c) \<longrightarrow> 0 \<le> r n \<and> nat (r n) < n \<and> P (nat (r n))) \<and>
         ((\<forall>c<n. \<not> P c) \<longrightarrow> r n = 0)"
proof (induction n)
  case 0
  show ?case by (simp add: r_def)
next
  case (Suc n)
  have step: "r (Suc n) = (if P n then int n else r n)"
    by (simp add: r_def)
  show ?case
  proof (cases "P n")
    case True
    with step show ?thesis by auto
  next
    case False
    then have "(\<exists>c<Suc n. P c) \<longleftrightarrow> (\<exists>c<n. P c)"
      using less_Suc_eq by auto
    moreover have "(\<forall>c<Suc n. \<not> P c) \<longleftrightarrow> (\<forall>c<n. \<not> P c)"
      using False less_Suc_eq by auto
    ultimately show ?thesis
      using Suc step False by auto
  qed
qed

text \<open>
  Claim C3. When the tour that the solver returns begins with the start index it was
  given, the first cell of the visit sequence contains the starting position (the point
  test is not negative: inside or on the boundary) whenever some cell contains it, and is
  cell 0 when no cell contains it.
\<close>

theorem start_cell_first:
  assumes "hd (optimal_order ext room_map map_resolution starting_position cell_polygons) =
             min_index ext cell_polygons starting_position"
  shows "((\<exists>c\<in>set cell_polygons. 0 \<le> pointPolygonTest ext c starting_position) \<longrightarrow>
            0 \<le> hd (optimal_order ext room_map map_resolution starting_position cell_polygons) \<and>
            hd (optimal_order ext room_map map_resolution starting_position cell_polygons)
              < int (length cell_polygons) \<and>
            0 \<le> pointPolygonTest ext
                  (cell_polygons ! nat (hd (optimal_order ext room_map map_resolution
                                               starting_position cell_polygons)))
                  starting_position) \<and>
         ((\<forall>c\<in>set cell_polygons. pointPolygonTest ext c starting_position < 0) \<longrightarrow>
            hd (optimal_order ext room_map map_resolution starting_position cell_polygons) = 0)"
proof -
  define P where "P = (\<lambda>cell. 0 \<le> pointPolygonTest ext (cell_polygons ! cell) starting_position)"
  have mi: "min_index ext cell_polygons starting_position =
        foldl (\<lambda>mi cell. if P cell then int cell else mi) 0 [0..<length cell_polygons]"
    by (simp add: min_index_def P_def)
  note u = min_index_upto [of "length cell_polygons" P, folded mi]
  have ex: "(\<exists>c\<in>set cell_polygons. 0 \<le> pointPolygonTest ext c starting_position) \<longleftrightarrow>
        (\<exists>c<length cell_polygons. P c)"
  proof
    assume "\<exists>c\<in>set cell_polygons. 0 \<le> pointPolygonTest ext c starting_position"
    then show "\<exists>c<length cell_polygons. P c"
      by (auto simp: P_def in_set_conv_nth)
  next
    assume "\<exists>c<length cell_polygons. P c"
    then obtain c where "c < length cell_polygons" "P c" by blast
    then have "cell_polygons ! c \<in> set cell_polygons"
      "0 \<le> pointPolygonTest ext (cell_polygons ! c) starting_position"
      by (simp_all add: P_def)
    then show "\<exists>c\<in>set cell_polygons. 0 \<le> pointPolygonTest ext c starting_position"
      by blast
  qed
  have al: "(\<forall>c\<in>set cell_polygons. pointPolygonTest ext c starting_position < 0) \<longleftrightarrow>
        (\<forall>c<length cell_polygons. \<not> P c)"
  proof
    assume "\<forall>c\<in>set cell_polygons. pointPolygonTest ext c starting_position < 0"
    then show "\<forall>c<length cell_polygons. \<not> P c"
      by (simp add: P_def not_le)
  next
    assume a: "\<forall>c<length cell_polygons. \<not> P c"
    show "\<forall>c\<in>set cell_polygons. pointPolygonTest ext c starting_position < 0"
    proof
      fix c assume "c \<in> set cell_polygons"
      then obtain i where "i < length cell_polygons" "cell_polygons ! i = c"
        by (auto simp: in_set_conv_nth)
      with a show "pointPolygonTest ext c starting_position < 0"
        by (auto simp: P_def not_le)
    qed
  qed
  show ?thesis
    unfolding assms ex al using u by (auto simp: P_def)
qed

theorem start_cell_first_witness:
  "hd (optimal_order example_externals room_7x8 0.05 (Point 4 1) two_cells) = 1 \<and>
   0 \<le> pointPolygonTest example_externals (two_cells ! 1) (Point 4 1) \<and>
   hd (optimal_order example_externals room_7x8 0.05 (Point 9 9) two_cells) = 0"
proof -
  have t: "hd (optimal_order example_externals room_7x8 0.05 p two_cells) =
           min_index example_externals two_cells p" for p
    by (simp add: optimal_order_def example_externals_def)
  have i: "min_index example_externals two_cells (Point 4 1) = 1"
    by code_simp
  have o: "\<forall>c\<in>set two_cells. pointPolygonTest example_externals c (Point 9 9) < 0"
    by (simp add: two_cells_def example_externals_def box_test_def bounding_box_def)
  have e: "\<exists>c\<in>set two_cells. 0 \<le> pointPolygonTest example_externals c (Point 4 1)"
    by (simp add: two_cells_def example_externals_def box_test_def bounding_box_def)
  show ?thesis
    using start_cell_first [OF t [of "Point 4 1"]] start_cell_first [OF t [of "Point 9 9"]]
      t [of "Point 4 1"] i o e
    by simp
qed

section \<open>The lines of a cell\<close>

lemma path_lines_from_rows:
  assumes "0 < R"
  shows "path_lines_from room_map R cell_cols min_x max_x max_y y acc =
         Some (case lines_of_rows (current_line room_map R cell_cols min_x max_x) (line_rows R max_y y) of
                 Inl e \<Rightarrow> Inl e | Inr ls \<Rightarrow> Inr (acc @ ls))"
  using assms
proof (induction R max_y y arbitrary: acc rule: line_rows.induct)
  case (1 R max_y y)
  show ?case
  proof (cases "current_line room_map R cell_cols min_x max_x y")
    case (Inl e)
    then show ?thesis
      by (subst path_lines_from.simps, subst line_rows.simps) simp
  next
    case (Inr l)
    show ?thesis
    proof (cases "y + R \<le> max_y")
      case True
      with 1 have IH: "path_lines_from room_map R cell_cols min_x max_x max_y (y + R) (acc @ [l]) =
         Some (case lines_of_rows (current_line room_map R cell_cols min_x max_x) (line_rows R max_y (y + R)) of
                 Inl e \<Rightarrow> Inl e | Inr ls \<Rightarrow> Inr ((acc @ [l]) @ ls))"
        by simp
      show ?thesis
        apply (subst path_lines_from.simps)
        apply (subst line_rows.simps)
        using True Inr 1(2) IH
        apply (simp split: sum.splits)
        done
    next
      case False
      then show ?thesis
        using Inr by (subst path_lines_from.simps, subst line_rows.simps) simp
    qed
  qed
qed



lemma length_line_rows:
  "0 < R \<Longrightarrow> length (line_rows R max_y y) = (if y \<le> max_y then nat ((max_y - y) div R) + 1 else 1)"
proof (induction R max_y y rule: line_rows.induct)
  case (1 R max_y y)
  show ?case
  proof (cases "y + R \<le> max_y")
    case True
    have d: "(max_y - y) div R = (max_y - (y + R)) div R + 1"
      using 1(2) by (metis add_diff_cancel_right' diff_diff_eq div_add_self2 less_irrefl add.commute diff_add_cancel)
    have nn: "0 \<le> (max_y - (y + R)) div R"
      using True 1(2) by (simp add: pos_imp_zdiv_nonneg_iff)
    show ?thesis
      using True 1 d nn by (subst line_rows.simps) (simp add: nat_add_distrib)
  next
    case False
    have "y \<le> max_y \<Longrightarrow> (max_y - y) div R = 0"
      using False 1(2) by (simp add: div_pos_pos_trivial)
    then show ?thesis
      using False by (subst line_rows.simps) simp
  qed
qed

lemma first_line_y_small:
  assumes "0 \<le> min_y" "min_y \<le> max_y" "max_y - min_y \<le> 2 * R"
  shows "first_line_y min_y max_y R = min_y + (max_y - min_y) div 2"
proof -
  have "real_of_int (max_y - min_y) \<le> real_of_int (2 * R)"
    using assms(3) by (simp only: of_int_le_iff)
  then have c: "real_of_int (max_y - min_y) \<le> 2.0 * real_of_int R"
    by simp
  have "real_of_int min_y + 0.5 * real_of_int (max_y - min_y)
          = real_of_int (min_y + max_y) / real_of_int 2"
    by (simp add: field_simps)
  then have "\<lfloor>real_of_int min_y + 0.5 * real_of_int (max_y - min_y)\<rfloor> = (min_y + max_y) div 2"
    by (simp only: floor_divide_of_int_eq)
  moreover have "(min_y + max_y) div 2 = min_y + (max_y - min_y) div 2"
    by presburger
  moreover have "0 \<le> real_of_int min_y + 0.5 * real_of_int (max_y - min_y)"
    using assms by simp
  ultimately show ?thesis
    using c by (simp add: first_line_y_def double_to_int_def)
qed


lemma path_lines_of_cell_rows:
  assumes "0 < R"
  shows "path_lines_of_cell room_map R cell_cols (min_x, max_x, min_y, max_y) =
         Some (lines_of_rows (current_line room_map R cell_cols min_x max_x)
                 (line_rows R max_y (first_line_y min_y max_y R)))"
  using path_lines_from_rows [OF assms, of room_map cell_cols min_x max_x max_y _ "[]"]
  by (simp add: path_lines_of_cell_def split: sum.splits)

lemma line_rows_small:
  assumes "0 < R" "min_y \<le> max_y" "max_y - min_y \<le> 2 * R"
  shows "line_rows R max_y (min_y + (max_y - min_y) div 2) =
           (if max_y - min_y \<le> 2 * R - 2 then [min_y + (max_y - min_y) div 2]
            else [min_y + (max_y - min_y) div 2, max_y])"
proof (cases "max_y - min_y \<le> 2 * R - 2")
  case True
  then have "\<not> min_y + (max_y - min_y) div 2 + R \<le> max_y"
    by linarith
  with True show ?thesis
    by (subst line_rows.simps) simp
next
  case False
  then consider "max_y - min_y = 2 * R" | "max_y - min_y = 2 * R - 1"
    using assms(3) by linarith
  then have "(max_y - min_y) div 2 + R = max_y - min_y"
  proof cases
    case 1
    then show ?thesis by simp
  next
    case 2
    have "(2 * R - 1) div 2 = R - 1"
      by linarith
    with 2 show ?thesis by simp
  qed
  then have e: "min_y + (max_y - min_y) div 2 + R = max_y"
    by linarith
  have "line_rows R max_y max_y = [max_y]"
    using assms(1) by (subst line_rows.simps) simp
  with False e assms(1) show ?thesis
    by (subst line_rows.simps) simp
qed

text \<open>
  Claim C1 (amended). For a positive radius \<open>R\<close> and a bounding box with
  \<open>0 \<le> min_y \<le> max_y\<close> and \<open>max_y - min_y \<le> 2R\<close>, the first line is on row
  \<open>min_y + (max_y - min_y) div 2\<close>. It is the only line when \<open>max_y - min_y \<le> 2R - 2\<close>;
  when \<open>max_y - min_y\<close> is \<open>2R - 1\<close> or \<open>2R\<close>, a second line follows on row \<open>max_y\<close>.
\<close>

theorem small_cell_lines:
  assumes "0 < R" "0 \<le> min_y" "min_y \<le> max_y" "max_y - min_y \<le> 2 * R"
  shows "path_lines_of_cell room_map R cell_cols (min_x, max_x, min_y, max_y) =
         Some (lines_of_rows (current_line room_map R cell_cols min_x max_x)
                 (if max_y - min_y \<le> 2 * R - 2 then [min_y + (max_y - min_y) div 2]
                  else [min_y + (max_y - min_y) div 2, max_y]))"
  using path_lines_of_cell_rows [OF assms(1)] first_line_y_small [OF assms(2,3,4)]
    line_rows_small [OF assms(1,3,4)]
  by simp

theorem small_cell_lines_witness:
  "path_lines_of_cell corridor_50x4 2 59 (0, 49, 0, 3) =
     Some (Inr [HorizontalLine (Point 2 1) (Point 47 1), HorizontalLine (Point 2 3) (Point 47 3)]) \<and>
   path_lines_of_cell corridor_50x4 3 59 (0, 49, 0, 3) =
     Some (Inr [HorizontalLine (Point 3 1) (Point 46 1)])"
proof -
  have a: "lines_of_rows (current_line corridor_50x4 2 59 0 49) [1, 3] =
     Inr [HorizontalLine (Point 2 1) (Point 47 1), HorizontalLine (Point 2 3) (Point 47 3)]"
    by code_simp
  have b: "lines_of_rows (current_line corridor_50x4 3 59 0 49) [1] =
     Inr [HorizontalLine (Point 3 1) (Point 46 1)]"
    by code_simp
  show ?thesis
    using small_cell_lines [where R = 2 and min_y = 0 and max_y = 3
        and room_map = corridor_50x4 and cell_cols = 59 and min_x = 0 and max_x = 49]
      small_cell_lines [where R = 3 and min_y = 0 and max_y = 3
        and room_map = corridor_50x4 and cell_cols = 59 and min_x = 0 and max_x = 49] a b
    by simp
qed

text \<open>
  The free part of the walled room spans the rows 1 to 5. With radius 2 its height is
  \<open>2R\<close>, and two lines are made, on rows 3 and 5.
\<close>

theorem single_line_counterexample:
  "(5::int) - 1 \<le> 2 * 2 \<and>
   path_lines_of_cell room_7x8 2 16 (1, 6, 1, 5) =
     Some (Inr [HorizontalLine (Point 3 3) (Point 4 3), HorizontalLine (Point 3 5) (Point 4 5)])"
  by code_simp










section \<open>The path along the lines\<close>

lemma norm_at_least_int [code]:
  "norm_at_least a b path_eps =
     (path_eps \<le> 0 \<or>
      path_eps * path_eps \<le> (pt_x a - pt_x b) * (pt_x a - pt_x b)
                             + (pt_y a - pt_y b) * (pt_y a - pt_y b))"
proof -
  define n where "n = (pt_x a - pt_x b) * (pt_x a - pt_x b) + (pt_y a - pt_y b) * (pt_y a - pt_y b)"
  have n0: "0 \<le> n"
    by (simp add: n_def)
  show ?thesis
  proof (cases "path_eps \<le> 0")
    case True
    have "real_of_int path_eps \<le> 0" using True by simp
    also have "0 \<le> sqrt (real_of_int n)" using n0 by simp
    finally show ?thesis using True by (simp add: norm_at_least_def n_def)
  next
    case False
    then have e: "0 \<le> real_of_int path_eps" by simp
    have "real_of_int path_eps \<le> sqrt (real_of_int n) \<longleftrightarrow>
          sqrt (real_of_int path_eps * real_of_int path_eps) \<le> sqrt (real_of_int n)"
      using e by simp
    also have "\<dots> \<longleftrightarrow> real_of_int (path_eps * path_eps) \<le> real_of_int n"
      by (simp only: real_sqrt_le_iff of_int_mult)
    also have "\<dots> \<longleftrightarrow> path_eps * path_eps \<le> n"
      by (simp only: of_int_le_iff)
    finally show ?thesis
      using False by (simp add: norm_at_least_def n_def)
  qed
qed

lemma le_div_iff_int:
  fixes e :: int
  assumes "0 < e"
  shows "j \<le> a div e \<longleftrightarrow> j * e \<le> a"
proof
  assume "j \<le> a div e"
  then have "j * e \<le> (a div e) * e"
    using assms by (simp add: mult_right_mono)
  also have "\<dots> \<le> a"
    using assms by (metis div_mult_mod_eq le_add_same_cancel1 pos_mod_sign)
  finally show "j * e \<le> a" .
next
  assume "j * e \<le> a"
  then have "(j * e) div e \<le> a div e"
    using assms by (rule zdiv_mono1)
  then show "j \<le> a div e"
    using assms by simp
qed

lemma points_to_right_eq:
  assumes "0 < path_eps" "1 \<le> j"
  shows "points_to_right path_eps line (j * path_eps) acc =
         Some (acc @ map (\<lambda>k. Point (pt_x (left_edge line) + k * path_eps) (pt_y (left_edge line)))
                        [j..(pt_x (right_edge line) - pt_x (left_edge line) - 1) div path_eps])"
  using assms
proof (induction "nat ((pt_x (right_edge line) - pt_x (left_edge line) - 1) div path_eps + 1 - j)"
        arbitrary: j acc)
  case 0
  then have "\<not> j \<le> (pt_x (right_edge line) - pt_x (left_edge line) - 1) div path_eps"
    by linarith
  moreover from this have "\<not> pt_x (left_edge line) + j * path_eps < pt_x (right_edge line)"
    using le_div_iff_int [OF 0(2), of j "pt_x (right_edge line) - pt_x (left_edge line) - 1"]
    by linarith
  ultimately show ?case
    by (subst points_to_right.simps) simp
next
  case (Suc n)
  then have le: "j \<le> (pt_x (right_edge line) - pt_x (left_edge line) - 1) div path_eps"
    by linarith
  then have lt: "pt_x (left_edge line) + j * path_eps < pt_x (right_edge line)"
    using le_div_iff_int [OF Suc(3), of j "pt_x (right_edge line) - pt_x (left_edge line) - 1"]
    by linarith
  have n: "n = nat ((pt_x (right_edge line) - pt_x (left_edge line) - 1) div path_eps + 1 - (j + 1))"
    using Suc(2) by linarith
  have step: "j * path_eps + path_eps = (j + 1) * path_eps"
    by (simp add: algebra_simps)
  have IH: "points_to_right path_eps line ((j + 1) * path_eps)
              (acc @ [Point (pt_x (left_edge line) + j * path_eps) (pt_y (left_edge line))]) =
         Some ((acc @ [Point (pt_x (left_edge line) + j * path_eps) (pt_y (left_edge line))])
               @ map (\<lambda>k. Point (pt_x (left_edge line) + k * path_eps) (pt_y (left_edge line)))
                        [j + 1..(pt_x (right_edge line) - pt_x (left_edge line) - 1) div path_eps])"
    using Suc(1) [OF n Suc(3)] Suc(4) by simp
  show ?case
    apply (subst points_to_right.simps)
    using lt le IH step
    by (simp add: upto_rec1 [OF le])
qed

lemma points_to_left_eq:
  assumes "0 < path_eps" "1 \<le> j"
  shows "points_to_left path_eps line (- (j * path_eps)) acc =
         Some (acc @ map (\<lambda>k. Point (pt_x (right_edge line) - k * path_eps) (pt_y (right_edge line)))
                        [j..(pt_x (right_edge line) - pt_x (left_edge line) - 1) div path_eps])"
  using assms
proof (induction "nat ((pt_x (right_edge line) - pt_x (left_edge line) - 1) div path_eps + 1 - j)"
        arbitrary: j acc)
  case 0
  then have "\<not> j \<le> (pt_x (right_edge line) - pt_x (left_edge line) - 1) div path_eps"
    by linarith
  moreover from this have "\<not> pt_x (right_edge line) + - (j * path_eps) > pt_x (left_edge line)"
    using le_div_iff_int [OF 0(2), of j "pt_x (right_edge line) - pt_x (left_edge line) - 1"]
    by linarith
  ultimately show ?case
    by (subst points_to_left.simps) simp
next
  case (Suc n)
  then have le: "j \<le> (pt_x (right_edge line) - pt_x (left_edge line) - 1) div path_eps"
    by linarith
  then have lt: "pt_x (right_edge line) + - (j * path_eps) > pt_x (left_edge line)"
    using le_div_iff_int [OF Suc(3), of j "pt_x (right_edge line) - pt_x (left_edge line) - 1"]
    by linarith
  have n: "n = nat ((pt_x (right_edge line) - pt_x (left_edge line) - 1) div path_eps + 1 - (j + 1))"
    using Suc(2) by linarith
  have step: "- (j * path_eps) - path_eps = - ((j + 1) * path_eps)"
    by (simp add: algebra_simps)
  have IH: "points_to_left path_eps line (- ((j + 1) * path_eps))
              (acc @ [Point (pt_x (right_edge line) - j * path_eps) (pt_y (right_edge line))]) =
         Some ((acc @ [Point (pt_x (right_edge line) - j * path_eps) (pt_y (right_edge line))])
               @ map (\<lambda>k. Point (pt_x (right_edge line) - k * path_eps) (pt_y (right_edge line)))
                        [j + 1..(pt_x (right_edge line) - pt_x (left_edge line) - 1) div path_eps])"
    using Suc(1) [OF n Suc(3)] Suc(4) by simp
  show ?case
    apply (subst points_to_left.simps)
    using lt le IH step
    by (simp add: upto_rec1 [OF le])
qed

lemma follow_astar_path_appends:
  "\<exists>robot_pos' connection. follow_astar_path path_eps astar_path (robot_pos, fow_path) = (robot_pos', fow_path @ connection)"
proof (induction astar_path arbitrary: robot_pos fow_path)
  case Nil
  then show ?case by simp
next
  case (Cons q astar_path)
  show ?case
  proof (cases "norm_at_least robot_pos q path_eps")
    case True
    from Cons [of q "fow_path @ [q]"] obtain r c where
      "follow_astar_path path_eps astar_path (q, fow_path @ [q]) = (r, (fow_path @ [q]) @ c)"
      by blast
    with True show ?thesis by simp
  next
    case False
    with Cons [of robot_pos fow_path] show ?thesis by simp
  qed
qed

lemma trace_to_right:
  assumes "0 < path_eps"
  shows "\<exists>connection.
          (case follow_astar_path path_eps astar_path (robot_pos1, fow_path) of
             (robot_pos2, fow_path1) \<Rightarrow>
               (case points_to_right path_eps line path_eps (fow_path1 @ [left_edge line]) of
                  None \<Rightarrow> None
                | Some fow_path2 \<Rightarrow>
                    Some (right_edge line, False, False, fow_path2 @ [right_edge line])))
          = Some (right_edge line, False, False,
                  fow_path @ connection @ line_points path_eps True line)"
proof -
  obtain r c where f: "follow_astar_path path_eps astar_path (robot_pos1, fow_path) = (r, fow_path @ c)"
    using follow_astar_path_appends by blast
  show ?thesis
    using f points_to_right_eq [OF assms, of 1 line "(fow_path @ c) @ [left_edge line]"]
    by (simp add: line_points_def)
qed

lemma trace_to_left:
  assumes "0 < path_eps"
  shows "\<exists>connection.
          (case follow_astar_path path_eps astar_path (robot_pos1, fow_path) of
             (robot_pos2, fow_path1) \<Rightarrow>
               (case points_to_left path_eps line (- path_eps) (fow_path1 @ [right_edge line]) of
                  None \<Rightarrow> None
                | Some fow_path2 \<Rightarrow>
                    Some (left_edge line, True, False, fow_path2 @ [left_edge line])))
          = Some (left_edge line, True, False,
                  fow_path @ connection @ line_points path_eps False line)"
proof -
  obtain r c where f: "follow_astar_path path_eps astar_path (robot_pos1, fow_path) = (r, fow_path @ c)"
    using follow_astar_path_appends by blast
  show ?thesis
    using f points_to_left_eq [OF assms, of 1 line "(fow_path @ c) @ [right_edge line]"]
    by (simp add: line_points_def)
qed

lemma plan_line_points:
  assumes "0 < path_eps"
  shows "\<exists>connection. plan_line ext room_map map_resolution path_eps line (robot_pos, left, start, fow_path) =
           Some (if left then right_edge line else left_edge line, \<not> left, False,
                 fow_path @ connection @ line_points path_eps left line)"
proof (cases left)
  case True
  then show ?thesis
    using trace_to_right [OF assms] by (simp add: plan_line_def Let_def)
next
  case False
  then show ?thesis
    using trace_to_left [OF assms] by (simp add: plan_line_def Let_def)
qed

lemma plan_lines_serpentine:
  assumes "0 < path_eps"
  shows "\<exists>connections st'. length connections = length lines \<and>
           plan_lines ext room_map map_resolution path_eps lines (robot_pos, left, start, fow_path) = Some st' \<and>
           snd (snd (snd st')) = fow_path @ concat (map2 (@) connections (serpentine path_eps left lines))"
proof (induction lines arbitrary: robot_pos left start fow_path)
  case Nil
  then show ?case by simp
next
  case (Cons line lines)
  obtain c where pl: "plan_line ext room_map map_resolution path_eps line (robot_pos, left, start, fow_path) =
           Some (if left then right_edge line else left_edge line, \<not> left, False,
                 fow_path @ c @ line_points path_eps left line)"
    using plan_line_points [OF assms] by blast
  from Cons [of "if left then right_edge line else left_edge line" "\<not> left" False
               "fow_path @ c @ line_points path_eps left line"]
  obtain cs st' where cs: "length cs = length lines"
    "plan_lines ext room_map map_resolution path_eps lines
       (if left then right_edge line else left_edge line, \<not> left, False,
        fow_path @ c @ line_points path_eps left line) = Some st'"
    "snd (snd (snd st')) = (fow_path @ c @ line_points path_eps left line)
        @ concat (map2 (@) cs (serpentine path_eps (\<not> left) lines))"
    by blast
  have "length (c # cs) = length (line # lines)"
    using cs(1) by simp
  moreover have "plan_lines ext room_map map_resolution path_eps (line # lines)
      (robot_pos, left, start, fow_path) = Some st'"
    using pl cs(2) by simp
  moreover have "snd (snd (snd st')) =
      fow_path @ concat (map2 (@) (c # cs) (serpentine path_eps left (line # lines)))"
    using cs(3) by simp
  ultimately show ?case by blast
qed

lemma follow_astar_path_acc:
  "follow_astar_path path_eps astar_path (robot_pos, acc) =
     (fst (follow_astar_path path_eps astar_path (robot_pos, [])),
      acc @ snd (follow_astar_path path_eps astar_path (robot_pos, [])))"
proof (induction astar_path arbitrary: robot_pos acc)
  case Nil
  show ?case by simp
next
  case (Cons q astar_path)
  show ?case
  proof (cases "norm_at_least robot_pos q path_eps")
    case True
    show ?thesis
      using True Cons [of q "acc @ [q]"] Cons [of q "[q]"] by simp
  next
    case False
    then show ?thesis
      using Cons [of robot_pos acc] by simp
  qed
qed

lemma trace_right_kept:
  assumes "0 < path_eps"
  shows "(case follow_astar_path path_eps
                 (planPath_path ext room_map robot_pos1 (left_edge line) map_resolution)
                 (robot_pos1, fow_path) of
            (robot_pos2, fow_path1) \<Rightarrow>
              (case points_to_right path_eps line path_eps (fow_path1 @ [left_edge line]) of
                 None \<Rightarrow> None
               | Some fow_path2 \<Rightarrow>
                   Some (right_edge line, False, False, fow_path2 @ [right_edge line])))
         = Some (right_edge line, False, False,
                 fow_path
                 @ kept_points ext room_map map_resolution path_eps robot_pos1 (left_edge line)
                 @ line_points path_eps True line)"
  apply (subst follow_astar_path_acc)
  using points_to_right_eq [OF assms, of 1 line]
  apply (simp add: kept_points_def line_points_def)
  done

lemma trace_left_kept:
  assumes "0 < path_eps"
  shows "(case follow_astar_path path_eps
                 (planPath_path ext room_map robot_pos1 (right_edge line) map_resolution)
                 (robot_pos1, fow_path) of
            (robot_pos2, fow_path1) \<Rightarrow>
              (case points_to_left path_eps line (- path_eps) (fow_path1 @ [right_edge line]) of
                 None \<Rightarrow> None
               | Some fow_path2 \<Rightarrow>
                   Some (left_edge line, True, False, fow_path2 @ [left_edge line])))
         = Some (left_edge line, True, False,
                 fow_path
                 @ kept_points ext room_map map_resolution path_eps robot_pos1 (right_edge line)
                 @ line_points path_eps False line)"
  apply (subst follow_astar_path_acc)
  using points_to_left_eq [OF assms, of 1 line]
  apply (simp add: kept_points_def line_points_def)
  done

lemma plan_line_traverse:
  assumes "0 < path_eps"
  shows "plan_line ext room_map map_resolution path_eps line (robot_pos, left, start, fow_path) =
           Some (exit_edge left line, \<not> left, False,
                 fow_path
                 @ kept_points ext room_map map_resolution path_eps
                     (if start then entry_edge left line else robot_pos) (entry_edge left line)
                 @ line_points path_eps left line)"
proof (cases left)
  case True
  then show ?thesis
    by (cases start)
      (simp_all add: plan_line_def Let_def entry_edge_def exit_edge_def
        trace_right_kept [OF assms])
next
  case False
  then show ?thesis
    by (cases start)
      (simp_all add: plan_line_def Let_def entry_edge_def exit_edge_def
        trace_left_kept [OF assms])
qed

lemma plan_lines_traverse:
  assumes "0 < path_eps"
  shows "\<exists>robot_pos' left' start'.
           plan_lines ext room_map map_resolution path_eps lines
             (robot_pos, left, start, fow_path) =
           Some (robot_pos', left', start',
                 fow_path
                 @ traverse ext room_map map_resolution path_eps
                     (if start \<and> lines \<noteq> [] then entry_edge left (hd lines) else robot_pos)
                     left lines)"
proof (induction lines arbitrary: robot_pos left start fow_path)
  case Nil
  show ?case by simp
next
  case (Cons line lines)
  define fp1 where "fp1 = fow_path
        @ kept_points ext room_map map_resolution path_eps
            (if start then entry_edge left line else robot_pos) (entry_edge left line)
        @ line_points path_eps left line"
  obtain rp' l' s' where
    r: "plan_lines ext room_map map_resolution path_eps lines
          (exit_edge left line, \<not> left, False, fp1) =
        Some (rp', l', s',
              fp1 @ traverse ext room_map map_resolution path_eps (exit_edge left line)
                      (\<not> left) lines)"
    using Cons [of "exit_edge left line" "\<not> left" False fp1] by auto
  have "plan_lines ext room_map map_resolution path_eps (line # lines)
          (robot_pos, left, start, fow_path) =
        Some (rp', l', s',
              fp1 @ traverse ext room_map map_resolution path_eps (exit_edge left line)
                      (\<not> left) lines)"
    using r by (simp add: plan_line_traverse [OF assms] fp1_def)
  then show ?case
    by (simp add: fp1_def)
qed


lemma lines_of_rows_not_empty:
  "lines_of_rows f ys = Inr ls \<Longrightarrow> ys \<noteq> [] \<Longrightarrow> ls \<noteq> []"
  by (cases ys) (auto split: sum.splits)

lemma line_rows_not_empty: "line_rows R max_y y \<noteq> []"
  by (subst line_rows.simps) simp

lemma path_lines_not_empty:
  assumes "0 < R"
    and "path_lines_of_cell room_map R cell_cols (min_x, max_x, min_y, max_y) =
           Some (Inr path_lines)"
  shows "path_lines \<noteq> []"
  using path_lines_of_cell_rows [OF assms(1), of room_map cell_cols min_x max_x min_y max_y]
    assms(2) lines_of_rows_not_empty line_rows_not_empty
  by (metis option.inject)

lemma cell_path_traverse:
  assumes "cell < length order"
    and "0 \<le> order ! cell" "order ! cell < int (length cell_polygons)"
    and "path_lines_of_cell room_map R
           (drawPolygon_cols ext (cell_polygons ! nat (order ! cell)))
           (getMinMaxCoordinates ext (cell_polygons ! nat (order ! cell))) =
         Some (Inr path_lines)"
    and "0 < path_eps"
    and "start_side
           (planPath_length ext room_map robot_pos (left_edge (path_lines ! 0)) map_resolution)
           (planPath_length ext room_map robot_pos (right_edge (path_lines ! 0)) map_resolution)
           (planPath_length ext room_map robot_pos (left_edge (last path_lines)) map_resolution)
           (planPath_length ext room_map robot_pos (right_edge (last path_lines)) map_resolution)
         = (start_from_upper_path, left)"
    and "path_lines \<noteq> []"
  shows "\<exists>robot_pos'.
           cell_path ext room_map map_resolution path_eps R cell_polygons order cell
             (robot_pos, fow_path) =
           Some (Inr (robot_pos',
                      fow_path
                      @ traverse ext room_map map_resolution path_eps
                          (entry_edge left
                             (hd (if start_from_upper_path then path_lines else rev path_lines)))
                          left (if start_from_upper_path then path_lines else rev path_lines)))"
proof -
  define ordered where "ordered = (if start_from_upper_path then path_lines else rev path_lines)"
  have ne: "ordered \<noteq> []"
    using assms(7) by (simp add: ordered_def)
  obtain rp' l' s' where
    p: "plan_lines ext room_map map_resolution path_eps ordered (robot_pos, left, True, fow_path) =
        Some (rp', l', s',
              fow_path @ traverse ext room_map map_resolution path_eps
                           (entry_edge left (hd ordered)) left ordered)"
    using plan_lines_traverse [OF assms(5), of ext room_map map_resolution ordered robot_pos left
        True fow_path] ne
    by auto
  have "cell_path ext room_map map_resolution path_eps R cell_polygons order cell
          (robot_pos, fow_path) =
        Some (Inr (rp', fow_path @ traverse ext room_map map_resolution path_eps
                                     (entry_edge left (hd ordered)) left ordered))"
    using assms(1,2,3,4,6) p
    by (simp add: cell_path_def Let_def ordered_def not_le)
  then show ?thesis
    unfolding ordered_def by blast
qed

lemma kept_points_code [code]:
  "kept_points ext room_map map_resolution path_eps a b =
     snd (follow_astar_path path_eps (planPath_path ext room_map a b map_resolution) (a, []))"
  by (rule kept_points_def)

section \<open>The corner where a cell is entered\<close>

lemma start_side_strict_minimum:
  "(dist1 < dist2 \<and> dist1 < dist3 \<and> dist1 < dist4 \<longrightarrow>
      start_side dist1 dist2 dist3 dist4 = (True, True)) \<and>
   (dist2 < dist1 \<and> dist2 < dist3 \<and> dist2 < dist4 \<longrightarrow>
      start_side dist1 dist2 dist3 dist4 = (True, False)) \<and>
   (dist3 < dist1 \<and> dist3 < dist2 \<and> dist3 < dist4 \<longrightarrow>
      start_side dist1 dist2 dist3 dist4 = (False, True)) \<and>
   (dist4 < dist1 \<and> dist4 < dist2 \<and> dist4 < dist3 \<longrightarrow>
      start_side dist1 dist2 dist3 dist4 = (False, False))"
  by (auto simp: start_side_def)

text \<open>
  Claim C7. The cell has the lines \<open>path_lines\<close>, and \<open>dist1\<close> to \<open>dist4\<close> are the
  lengths of the paths planned from the robot position to the left and the right edge of
  the first line and to the left and the right edge of the last line. When one of the
  four is strictly smaller than the three others, the path of the cell starts at that
  corner: the lines are traversed from the first to the last when the corner is on the
  first line and from the last to the first otherwise, and the first line traversed is
  traced from left to right when the corner is a left edge and from right to left
  otherwise.
\<close>

theorem nearest_corner_entry:
  assumes "cell < length order"
    and "0 \<le> order ! cell" "order ! cell < int (length cell_polygons)"
    and "0 < R" "0 < path_eps"
    and "path_lines_of_cell room_map R
           (drawPolygon_cols ext (cell_polygons ! nat (order ! cell)))
           (getMinMaxCoordinates ext (cell_polygons ! nat (order ! cell))) =
         Some (Inr path_lines)"
    and "dist1 = planPath_length ext room_map robot_pos (left_edge (path_lines ! 0)) map_resolution"
    and "dist2 = planPath_length ext room_map robot_pos (right_edge (path_lines ! 0)) map_resolution"
    and "dist3 = planPath_length ext room_map robot_pos (left_edge (last path_lines)) map_resolution"
    and "dist4 = planPath_length ext room_map robot_pos (right_edge (last path_lines)) map_resolution"
  shows "(dist1 < dist2 \<and> dist1 < dist3 \<and> dist1 < dist4 \<longrightarrow>
            (\<exists>robot_pos'.
               cell_path ext room_map map_resolution path_eps R cell_polygons order cell
                 (robot_pos, fow_path) =
               Some (Inr (robot_pos',
                          fow_path @ traverse ext room_map map_resolution path_eps
                                       (left_edge (path_lines ! 0)) True path_lines)))) \<and>
         (dist2 < dist1 \<and> dist2 < dist3 \<and> dist2 < dist4 \<longrightarrow>
            (\<exists>robot_pos'.
               cell_path ext room_map map_resolution path_eps R cell_polygons order cell
                 (robot_pos, fow_path) =
               Some (Inr (robot_pos',
                          fow_path @ traverse ext room_map map_resolution path_eps
                                       (right_edge (path_lines ! 0)) False path_lines)))) \<and>
         (dist3 < dist1 \<and> dist3 < dist2 \<and> dist3 < dist4 \<longrightarrow>
            (\<exists>robot_pos'.
               cell_path ext room_map map_resolution path_eps R cell_polygons order cell
                 (robot_pos, fow_path) =
               Some (Inr (robot_pos',
                          fow_path @ traverse ext room_map map_resolution path_eps
                                       (left_edge (last path_lines)) True (rev path_lines))))) \<and>
         (dist4 < dist1 \<and> dist4 < dist2 \<and> dist4 < dist3 \<longrightarrow>
            (\<exists>robot_pos'.
               cell_path ext room_map map_resolution path_eps R cell_polygons order cell
                 (robot_pos, fow_path) =
               Some (Inr (robot_pos',
                          fow_path @ traverse ext room_map map_resolution path_eps
                                       (right_edge (last path_lines)) False (rev path_lines)))))"
proof -
  have ne: "path_lines \<noteq> []"
    using path_lines_not_empty [OF assms(4)] assms(6)
    by (cases "getMinMaxCoordinates ext (cell_polygons ! nat (order ! cell))") auto
  have h: "hd path_lines = path_lines ! 0" "hd (rev path_lines) = last path_lines"
    using ne by (simp_all add: hd_conv_nth hd_rev)
  have c: "\<exists>robot_pos'.
           cell_path ext room_map map_resolution path_eps R cell_polygons order cell
             (robot_pos, fow_path) =
           Some (Inr (robot_pos',
                      fow_path
                      @ traverse ext room_map map_resolution path_eps
                          (entry_edge left (hd (if upper then path_lines else rev path_lines)))
                          left (if upper then path_lines else rev path_lines)))"
    if "start_side dist1 dist2 dist3 dist4 = (upper, left)" for upper left
    using cell_path_traverse [OF assms(1,2,3,6,5) _ ne, where start_from_upper_path = upper
        and left = left and fow_path = fow_path] that
    unfolding assms(7,8,9,10) by simp
  note s = start_side_strict_minimum [of dist1 dist2 dist3 dist4]
  show ?thesis
  proof (intro conjI impI)
    assume "dist1 < dist2 \<and> dist1 < dist3 \<and> dist1 < dist4"
    then have "start_side dist1 dist2 dist3 dist4 = (True, True)" using s by blast
    from c [OF this] show "\<exists>robot_pos'.
               cell_path ext room_map map_resolution path_eps R cell_polygons order cell
                 (robot_pos, fow_path) =
               Some (Inr (robot_pos',
                          fow_path @ traverse ext room_map map_resolution path_eps
                                       (left_edge (path_lines ! 0)) True path_lines))"
      by (simp add: entry_edge_def h)
  next
    assume "dist2 < dist1 \<and> dist2 < dist3 \<and> dist2 < dist4"
    then have "start_side dist1 dist2 dist3 dist4 = (True, False)" using s by blast
    from c [OF this] show "\<exists>robot_pos'.
               cell_path ext room_map map_resolution path_eps R cell_polygons order cell
                 (robot_pos, fow_path) =
               Some (Inr (robot_pos',
                          fow_path @ traverse ext room_map map_resolution path_eps
                                       (right_edge (path_lines ! 0)) False path_lines))"
      by (simp add: entry_edge_def h)
  next
    assume "dist3 < dist1 \<and> dist3 < dist2 \<and> dist3 < dist4"
    then have "start_side dist1 dist2 dist3 dist4 = (False, True)" using s by blast
    from c [OF this] show "\<exists>robot_pos'.
               cell_path ext room_map map_resolution path_eps R cell_polygons order cell
                 (robot_pos, fow_path) =
               Some (Inr (robot_pos',
                          fow_path @ traverse ext room_map map_resolution path_eps
                                       (left_edge (last path_lines)) True (rev path_lines)))"
      by (simp add: entry_edge_def h)
  next
    assume "dist4 < dist1 \<and> dist4 < dist2 \<and> dist4 < dist3"
    then have "start_side dist1 dist2 dist3 dist4 = (False, False)" using s by blast
    from c [OF this] show "\<exists>robot_pos'.
               cell_path ext room_map map_resolution path_eps R cell_polygons order cell
                 (robot_pos, fow_path) =
               Some (Inr (robot_pos',
                          fow_path @ traverse ext room_map map_resolution path_eps
                                       (right_edge (last path_lines)) False (rev path_lines)))"
      by (simp add: entry_edge_def h)
  qed
qed

theorem nearest_corner_entry_witness:
  "cell_path example_externals hall_9x52 0.05 20 2 hall_cells [0] 0 (Point 1 1, []) =
     Some (Inr (Point 48 6, traverse example_externals hall_9x52 0.05 20 (Point 3 2) True
                              hall_lines)) \<and>
   traverse example_externals hall_9x52 0.05 20 (Point 3 2) True hall_lines =
     [Point 3 2, Point 23 2, Point 43 2, Point 48 2,
      Point 48 4, Point 28 4, Point 8 4, Point 3 4,
      Point 3 6, Point 23 6, Point 43 6, Point 48 6] \<and>
   cell_path example_externals hall_9x52 0.05 20 2 hall_cells [0] 0 (Point 50 1, []) =
     Some (Inr (Point 3 6, traverse example_externals hall_9x52 0.05 20 (Point 48 2) False
                             hall_lines)) \<and>
   traverse example_externals hall_9x52 0.05 20 (Point 48 2) False hall_lines =
     [Point 48 2, Point 28 2, Point 8 2, Point 3 2,
      Point 3 4, Point 23 4, Point 43 4, Point 48 4,
      Point 48 6, Point 28 6, Point 8 6, Point 3 6] \<and>
   cell_path example_externals hall_9x52 0.05 20 2 hall_cells [0] 0 (Point 1 7, []) =
     Some (Inr (Point 48 2, traverse example_externals hall_9x52 0.05 20 (Point 3 6) True
                              (rev hall_lines))) \<and>
   traverse example_externals hall_9x52 0.05 20 (Point 3 6) True (rev hall_lines) =
     [Point 3 6, Point 23 6, Point 43 6, Point 48 6,
      Point 48 4, Point 28 4, Point 8 4, Point 3 4,
      Point 3 2, Point 23 2, Point 43 2, Point 48 2] \<and>
   cell_path example_externals hall_9x52 0.05 20 2 hall_cells [0] 0 (Point 50 7, []) =
     Some (Inr (Point 3 2, traverse example_externals hall_9x52 0.05 20 (Point 48 6) False
                             (rev hall_lines))) \<and>
   traverse example_externals hall_9x52 0.05 20 (Point 48 6) False (rev hall_lines) =
     [Point 48 6, Point 28 6, Point 8 6, Point 3 6,
      Point 3 4, Point 23 4, Point 43 4, Point 48 4,
      Point 48 2, Point 28 2, Point 8 2, Point 3 2]"
proof -
  have i: "0 < length [0::int]" "0 \<le> [0::int] ! 0" "[0::int] ! 0 < int (length hall_cells)"
    "(0::int) < 2" "(0::int) < 20"
    by (simp_all add: hall_cells_def)
  have l: "path_lines_of_cell hall_9x52 2
             (drawPolygon_cols example_externals (hall_cells ! nat ([0] ! 0)))
             (getMinMaxCoordinates example_externals (hall_cells ! nat ([0] ! 0))) =
           Some (Inr hall_lines)"
    by code_simp
  have first: "hall_lines ! 0 = HorizontalLine (Point 3 2) (Point 48 2)"
    and last: "last hall_lines = HorizontalLine (Point 3 6) (Point 48 6)"
    by (simp_all add: hall_lines_def)
  note n = nearest_corner_entry [OF i l refl refl refl refl, where fow_path = "[]"
      and map_resolution = "0.05"]
  have c: "cell_path example_externals hall_9x52 0.05 20 2 hall_cells [0] 0 (Point 1 1, []) =
     Some (Inr (Point 48 6, [Point 3 2, Point 23 2, Point 43 2, Point 48 2,
      Point 48 4, Point 28 4, Point 8 4, Point 3 4,
      Point 3 6, Point 23 6, Point 43 6, Point 48 6]))"
   "cell_path example_externals hall_9x52 0.05 20 2 hall_cells [0] 0 (Point 50 1, []) =
     Some (Inr (Point 3 6, [Point 48 2, Point 28 2, Point 8 2, Point 3 2,
      Point 3 4, Point 23 4, Point 43 4, Point 48 4,
      Point 48 6, Point 28 6, Point 8 6, Point 3 6]))"
   "cell_path example_externals hall_9x52 0.05 20 2 hall_cells [0] 0 (Point 1 7, []) =
     Some (Inr (Point 48 2, [Point 3 6, Point 23 6, Point 43 6, Point 48 6,
      Point 48 4, Point 28 4, Point 8 4, Point 3 4,
      Point 3 2, Point 23 2, Point 43 2, Point 48 2]))"
   "cell_path example_externals hall_9x52 0.05 20 2 hall_cells [0] 0 (Point 50 7, []) =
     Some (Inr (Point 3 2, [Point 48 6, Point 28 6, Point 8 6, Point 3 6,
      Point 3 4, Point 23 4, Point 43 4, Point 48 4,
      Point 48 2, Point 28 2, Point 8 2, Point 3 2]))"
    by code_simp+
  have t: "traverse example_externals hall_9x52 0.05 20 (Point 3 2) True hall_lines =
     [Point 3 2, Point 23 2, Point 43 2, Point 48 2,
      Point 48 4, Point 28 4, Point 8 4, Point 3 4,
      Point 3 6, Point 23 6, Point 43 6, Point 48 6]"
   "traverse example_externals hall_9x52 0.05 20 (Point 48 2) False hall_lines =
     [Point 48 2, Point 28 2, Point 8 2, Point 3 2,
      Point 3 4, Point 23 4, Point 43 4, Point 48 4,
      Point 48 6, Point 28 6, Point 8 6, Point 3 6]"
   "traverse example_externals hall_9x52 0.05 20 (Point 3 6) True (rev hall_lines) =
     [Point 3 6, Point 23 6, Point 43 6, Point 48 6,
      Point 48 4, Point 28 4, Point 8 4, Point 3 4,
      Point 3 2, Point 23 2, Point 43 2, Point 48 2]"
   "traverse example_externals hall_9x52 0.05 20 (Point 48 6) False (rev hall_lines) =
     [Point 48 6, Point 28 6, Point 8 6, Point 3 6,
      Point 3 4, Point 23 4, Point 43 4, Point 48 4,
      Point 48 2, Point 28 2, Point 8 2, Point 3 2]"
    by code_simp+
  have a: "\<exists>robot_pos'.
        cell_path example_externals hall_9x52 0.05 20 2 hall_cells [0] 0 (Point 1 1, []) =
        Some (Inr (robot_pos', [] @ traverse example_externals hall_9x52 0.05 20
                                      (left_edge (hall_lines ! 0)) True hall_lines))"
    "\<exists>robot_pos'.
        cell_path example_externals hall_9x52 0.05 20 2 hall_cells [0] 0 (Point 50 1, []) =
        Some (Inr (robot_pos', [] @ traverse example_externals hall_9x52 0.05 20
                                      (right_edge (hall_lines ! 0)) False hall_lines))"
    "\<exists>robot_pos'.
        cell_path example_externals hall_9x52 0.05 20 2 hall_cells [0] 0 (Point 1 7, []) =
        Some (Inr (robot_pos', [] @ traverse example_externals hall_9x52 0.05 20
                                      (left_edge (last hall_lines)) True
                                      (rev hall_lines)))"
    "\<exists>robot_pos'.
        cell_path example_externals hall_9x52 0.05 20 2 hall_cells [0] 0 (Point 50 7, []) =
        Some (Inr (robot_pos', [] @ traverse example_externals hall_9x52 0.05 20
                                      (right_edge (last hall_lines)) False
                                      (rev hall_lines)))"
    using n [where robot_pos = "Point 1 1"] n [where robot_pos = "Point 50 1"]
      n [where robot_pos = "Point 1 7"] n [where robot_pos = "Point 50 7"]
    by (simp_all add: example_externals_def first last)
  show ?thesis
    using a c t by (simp add: first last)
qed

section \<open>The all-free rectangle\<close>














section \<open>The path for the footprint\<close>

lemma is_float_resolution: "is_float resolution_0_05f"
proof -
  have "\<bar>13421773::int\<bar> < 2 ^ 24 \<and> (28::nat) \<le> 149 \<and>
        resolution_0_05f = real_of_int 13421773 / 2 ^ 28"
    by (simp add: resolution_0_05f_def)
  then show ?thesis
    unfolding is_float_def by blast
qed

lemma not_is_float_0_05: "\<not> is_float 0.05"
proof
  assume "is_float 0.05"
  then obtain m :: int and e :: nat where
    c: "0.05 = real_of_int m / 2 ^ e \<or> 0.05 = real_of_int m * 2 ^ e"
    unfolding is_float_def by blast
  then show False
  proof
    assume "0.05 = real_of_int m / 2 ^ e"
    then have "real_of_int (2 ^ e) = real_of_int (20 * m)"
      by (simp add: field_simps)
    then have "(2::int) ^ e = 20 * m"
      by (simp only: of_int_eq_iff)
    then have "(5::int) dvd 2 ^ e"
      by simp
    moreover have "coprime (5::int) (2 ^ e)"
      by (simp add: coprime_power_right_iff)
    ultimately have "is_unit (5::int)"
      using coprime_common_divisor [of "5::int" "2 ^ e" 5] by simp
    then show False
      by simp
  next
    assume "0.05 = real_of_int m * 2 ^ e"
    then have "real_of_int (20 * m * 2 ^ e) = real_of_int 1"
      by (simp add: field_simps)
    then have "20 * m * 2 ^ e = (1::int)"
      by (simp only: of_int_eq_iff)
    then have "(20::int) dvd 1"
      by (metis dvd_triv_left mult.assoc)
    then show False
      by simp
  qed
qed

lemma nearest_float: 
  "13421772 / 268435456 < (0.05::real) \<and> (0.05::real) < 13421773 / 268435456 \<and>
   13421773 / 268435456 - (0.05::real) < 0.05 - 13421772 / 268435456"
  by simp

lemma is_double_dyadic:
  assumes "\<bar>m\<bar> < 2 ^ 53" "e \<le> 1074"
  shows "is_double (real_of_int m / 2 ^ e)"
  unfolding is_double_def using assms by blast

lemma current_pose_exact:
  assumes "\<forall>r. is_double r \<longrightarrow> fl r = r"
    and "is_double (pose_x pose * map_resolution)"
    and "is_double (pose_x pose * map_resolution + fst map_origin)"
    and "is_double (pose_y pose * map_resolution)"
    and "is_double (pose_y pose * map_resolution + snd map_origin)"
  shows "current_pose fl map_resolution map_origin pose =
           Pose2D (pose_x pose * map_resolution + fst map_origin)
                  (pose_y pose * map_resolution + snd map_origin) (theta pose)"
  using assms by (simp add: current_pose_def)

lemma pose_100_80:
  assumes "\<forall>r. is_double r \<longrightarrow> fl r = r"
  shows "current_pose fl resolution_0_05f (- 2.5, - 2.5) (Pose2D 100 80 angle) =
           Pose2D (167772165 / 67108864) (25165825 / 16777216) angle"
proof -
  have a: "is_double (100 * resolution_0_05f)"
    using is_double_dyadic [of 335544325 26] by (simp add: resolution_0_05f_def)
  have b: "is_double (100 * resolution_0_05f + - 2.5)"
    using is_double_dyadic [of 167772165 26] by (simp add: resolution_0_05f_def)
  have c: "is_double (80 * resolution_0_05f)"
    using is_double_dyadic [of 67108865 24] by (simp add: resolution_0_05f_def)
  have d: "is_double (80 * resolution_0_05f + - 2.5)"
    using is_double_dyadic [of 25165825 24] by (simp add: resolution_0_05f_def)
  have "current_pose fl resolution_0_05f (- 2.5, - 2.5) (Pose2D 100 80 angle) =
          Pose2D (100 * resolution_0_05f + - 2.5) (80 * resolution_0_05f + - 2.5) angle"
    using current_pose_exact [OF assms, of "Pose2D 100 80 angle" resolution_0_05f "(- 2.5, - 2.5)"]
      a b c d by simp
  then show ?thesis
    by (simp add: resolution_0_05f_def)
qed

text \<open>
  Claim C9 (amended). With \<open>plan_for_footprint\<close> set, the function appends to the path,
  for each pose of the field of view in order, the pose
  \<open>(x * resolution + origin.x, y * resolution + origin.y, theta)\<close> as computed in
  \<^verbatim>\<open>double\<close> arithmetic: the product is rounded, then the sum. The angle is kept, and
  the vector from the robot to the field of view has no influence. When rounding leaves
  doubles as they are and the product and the sum are doubles, the pose is that of the
  formula. The resolution is a \<^verbatim>\<open>float\<close>; with the float nearest to 0.05 and the
  origin \<open>(-2.5, -2.5)\<close> the pose \<open>(100, 80)\<close> becomes
  \<open>(167772165 / 2 ^ 26, 25165825 / 2 ^ 24)\<close>, that is
  \<open>(2.50000007450580596923828125, 1.500000059604644775390625)\<close>, with the same angle.
\<close>

theorem footprint_world_poses:
  "getExplorationPath ext read room_map path map_resolution starting_position map_origin
       fitting_circle_radius path_eps True robot_to_fow_vector =
     (case fow_middlepoint_path ext read room_map map_resolution starting_position
             fitting_circle_radius path_eps of
        None \<Rightarrow> None
      | Some (Inl e) \<Rightarrow> Some (Inl e)
      | Some (Inr fow_path) \<Rightarrow>
          Some (Inr (path @
            map (\<lambda>pose.
                   Pose2D (round_double ext
                             (round_double ext (pose_x pose * map_resolution) + fst map_origin))
                          (round_double ext
                             (round_double ext (pose_y pose * map_resolution) + snd map_origin))
                          (theta pose))
              (fow_poses ext fow_path)))) \<and>
   getExplorationPath ext read room_map path map_resolution starting_position map_origin
       fitting_circle_radius path_eps True robot_to_fow_vector =
   getExplorationPath ext read room_map path map_resolution starting_position map_origin
       fitting_circle_radius path_eps True other_vector \<and>
   ((\<forall>r. is_double r \<longrightarrow> round_double ext r = r) \<longrightarrow>
      (is_double (pose_x pose * map_resolution) \<and>
       is_double (pose_x pose * map_resolution + fst map_origin) \<and>
       is_double (pose_y pose * map_resolution) \<and>
       is_double (pose_y pose * map_resolution + snd map_origin) \<longrightarrow>
       current_pose (round_double ext) map_resolution map_origin pose =
         Pose2D (pose_x pose * map_resolution + fst map_origin)
                (pose_y pose * map_resolution + snd map_origin) (theta pose)) \<and>
      current_pose (round_double ext) resolution_0_05f (- 2.5, - 2.5) (Pose2D 100 80 angle) =
        Pose2D (167772165 / 67108864) (25165825 / 16777216) angle)"
proof -
  have f: "current_pose (round_double ext) map_resolution map_origin =
        (\<lambda>pose.
           Pose2D (round_double ext
                     (round_double ext (pose_x pose * map_resolution) + fst map_origin))
                  (round_double ext
                     (round_double ext (pose_y pose * map_resolution) + snd map_origin))
                  (theta pose))"
    by (rule ext) (simp add: current_pose_def)
  have a: "getExplorationPath ext read room_map path map_resolution starting_position
       map_origin fitting_circle_radius path_eps True v =
     (case fow_middlepoint_path ext read room_map map_resolution starting_position
             fitting_circle_radius path_eps of
        None \<Rightarrow> None
      | Some (Inl e) \<Rightarrow> Some (Inl e)
      | Some (Inr fow_path) \<Rightarrow>
          Some (Inr (path @
            map (\<lambda>pose.
                   Pose2D (round_double ext
                             (round_double ext (pose_x pose * map_resolution) + fst map_origin))
                          (round_double ext
                             (round_double ext (pose_y pose * map_resolution) + snd map_origin))
                          (theta pose))
              (fow_poses ext fow_path))))" for v
    unfolding getExplorationPath_def path_of_poses_def f
    by (simp split: option.splits sum.splits)
  show ?thesis
    using a [of robot_to_fow_vector] a [of other_vector]
      current_pose_exact [of "round_double ext" pose map_resolution map_origin]
      pose_100_80 [of "round_double ext" angle]
    by simp
qed

theorem footprint_world_poses_witness:
  "round_double clipping_externals = (\<lambda>r. r) \<and>
   fow_middlepoint_path clipping_externals (at_unchecked (\<lambda>y x. 0)) room_7x8
     resolution_0_05f (Point 1 1) 2 2 =
     Some (Inr [Point 3 3, Point 4 3, Point 4 5, Point 4 5, Point 3 5]) \<and>
   getExplorationPath clipping_externals (at_unchecked (\<lambda>y x. 0)) room_7x8 []
     resolution_0_05f (Point 1 1) (- 2.5, - 2.5) 2 2 True (0.5, 0) =
     Some (Inr [Pose2D (- 630823321 / 268435456) (- 630823321 / 268435456) 0,
                Pose2D (- 154350387 / 67108864) (- 630823321 / 268435456) 0,
                Pose2D (- 154350387 / 67108864) (- 603979775 / 268435456) 0,
                Pose2D (- 154350387 / 67108864) (- 603979775 / 268435456) 0,
                Pose2D (- 630823321 / 268435456) (- 603979775 / 268435456) 0]) \<and>
   current_pose (round_double clipping_externals) resolution_0_05f (- 2.5, - 2.5)
     (Pose2D 100 80 0) = Pose2D (167772165 / 67108864) (25165825 / 16777216) 0"
proof -
  have r: "round_double clipping_externals = (\<lambda>r. r)"
    by (simp add: clipping_externals_def example_externals_def)
  have p: "fow_middlepoint_path clipping_externals (at_unchecked (\<lambda>y x. 0)) room_7x8
     resolution_0_05f (Point 1 1) 2 2 =
     Some (Inr [Point 3 3, Point 4 3, Point 4 5, Point 4 5, Point 3 5])"
    by code_simp
  have q: "fow_poses clipping_externals [Point 3 3, Point 4 3, Point 4 5, Point 4 5, Point 3 5] =
     [Pose2D 3 3 0, Pose2D 4 3 0, Pose2D 4 5 0, Pose2D 4 5 0, Pose2D 3 5 0]"
    by code_simp
  note t = footprint_world_poses [where ext = clipping_externals
        and read = "at_unchecked (\<lambda>y x. 0)" and room_map = room_7x8 and path = "[]"
        and map_resolution = resolution_0_05f and starting_position = "Point 1 1"
        and map_origin = "(- 2.5, - 2.5)" and fitting_circle_radius = 2 and path_eps = 2
        and robot_to_fow_vector = "(0.5, 0)" and other_vector = "(0, 0)"
        and pose = "Pose2D 100 80 0" and angle = 0]
  have d: "\<forall>r. is_double r \<longrightarrow> round_double clipping_externals r = r"
    by (simp add: r)
  have g: "getExplorationPath clipping_externals (at_unchecked (\<lambda>y x. 0)) room_7x8 []
     resolution_0_05f (Point 1 1) (- 2.5, - 2.5) 2 2 True (0.5, 0) =
     Some (Inr [Pose2D (- 630823321 / 268435456) (- 630823321 / 268435456) 0,
                Pose2D (- 154350387 / 67108864) (- 630823321 / 268435456) 0,
                Pose2D (- 154350387 / 67108864) (- 603979775 / 268435456) 0,
                Pose2D (- 154350387 / 67108864) (- 603979775 / 268435456) 0,
                Pose2D (- 630823321 / 268435456) (- 603979775 / 268435456) 0])"
    using t [THEN conjunct1, unfolded p q]
    by (simp add: r q resolution_0_05f_def)
  have c: "current_pose (round_double clipping_externals) resolution_0_05f (- 2.5, - 2.5)
     (Pose2D 100 80 0) = Pose2D (167772165 / 67108864) (25165825 / 16777216) 0"
    using t [THEN conjunct2, THEN conjunct2] d by blast
  show ?thesis
    using r p g c by blast
qed

text \<open>
  0.05 is not a float. The float nearest to it lies above it, and the world pose of the
  grid pose \<open>(100, 80)\<close> is not \<open>(2.5, 1.5)\<close>. The product and the sum are doubles at
  this input, so every rounding gives the same pose.
\<close>

theorem resolution_0_05_counterexample:
  "\<not> is_float 0.05 \<and> is_float resolution_0_05f \<and>
   13421772 / 268435456 < (0.05::real) \<and> 0.05 < resolution_0_05f \<and>
   resolution_0_05f - 0.05 < 0.05 - 13421772 / 268435456 \<and>
   current_pose (round_double example_externals) resolution_0_05f (- 2.5, - 2.5)
     (Pose2D 100 80 0) = Pose2D (167772165 / 67108864) (25165825 / 16777216) 0 \<and>
   current_pose (round_double example_externals) resolution_0_05f (- 2.5, - 2.5)
     (Pose2D 100 80 0) \<noteq> Pose2D 2.5 1.5 0"
proof -
  have "\<forall>r. is_double r \<longrightarrow> round_double example_externals r = r"
    by (simp add: example_externals_def)
  then have "current_pose (round_double example_externals) resolution_0_05f (- 2.5, - 2.5)
     (Pose2D 100 80 0) = Pose2D (167772165 / 67108864) (25165825 / 16777216) 0"
    by (rule pose_100_80)
  then show ?thesis
    using not_is_float_0_05 is_float_resolution by (simp add: resolution_0_05f_def)
qed

section \<open>The stencil at the last column\<close>

text \<open>
  Claim C10 does not hold for the code. In the walled room the last row with a free pixel
  is followed by a black row, an OUT event; the last pixel of that row is a wall after
  free pixels, and the stencil under it reads the columns 6, 7 and 8 of row 6 of a map
  with 8 columns. The same happens above the last pixel of row 1 of a map of 2 by 2
  pixels at an IN event, and whenever the stencil is used at the last column.
\<close>

theorem stencil_reads_outside_map:
  "decompose at_uchar room_7x8 = Inl (OutOfBounds 6 8) \<and>
   decompose at_uchar [[255, 255], [255, 0]] = Inl (OutOfBounds 0 2) \<and>
   critical_point at_uchar room_7x8 6 (int (cols room_7x8) - 1) = Inl (OutOfBounds 6 8)"
  by code_simp

end
